(* ===== verification/Prelude.thy ===== *)
theory Prelude
  imports Main "HOL-Library.Multiset"
begin

text \<open>
  Shared vocabulary of the development: the types that stand for Go's time values, the results of
  calls that may block, the lemma collections the component theories fill, and generic facts on
  lists, finite sets and maps that more than one component uses.
\<close>

section \<open>Time\<close>

text \<open>
  A \<open>time.Time\<close> is the number of nanoseconds since some epoch and a \<open>time.Duration\<close> a number of
  nanoseconds; \<open>t.Before(u)\<close> is \<open>t < u\<close>, \<open>t.After(u)\<close> is \<open>u < t\<close>, \<open>t.Add(d)\<close> is \<open>t + d\<close> and
  \<open>t.Sub(u)\<close> is \<open>t - u\<close>. The value a clock returns is always an argument of the operation that
  reads it. Where the 64-bit width of a duration matters the bounds below are used explicitly.
\<close>

type_synonym time = int
type_synonym duration = int

definition max_int64 :: int where
  "max_int64 = 2 ^ 63 - 1"

definition min_int64 :: int where
  "min_int64 = - (2 ^ 63)"

definition in_int64 :: "int \<Rightarrow> bool" where
  "in_int64 n \<longleftrightarrow> min_int64 \<le> n \<and> n \<le> max_int64"

text \<open>Two's complement wrap-around of Go's \<open>int\<close>, \<open>int64\<close> and \<open>time.Duration\<close> arithmetic.\<close>

definition wrap64 :: "int \<Rightarrow> int" where
  "wrap64 n = (n + 2 ^ 63) mod 2 ^ 64 - 2 ^ 63"

lemma wrap64_in_range [simp]: "in_int64 (wrap64 n)"
  by (simp add: in_int64_def wrap64_def min_int64_def max_int64_def)

lemma wrap64_id: "in_int64 n \<Longrightarrow> wrap64 n = n"
  by (simp add: in_int64_def wrap64_def min_int64_def max_int64_def)

lemma wrap64_over:
  assumes "max_int64 < n" and "n \<le> max_int64 + 2 ^ 64"
  shows "wrap64 n = n - 2 ^ 64"
proof -
  have "wrap64 n = wrap64 (n - 2 ^ 64)"
    using mod_add_self2 [of "n - 2 ^ 63" "2 ^ 64"] by (simp add: wrap64_def add.commute)
  moreover have "in_int64 (n - 2 ^ 64)"
    using assms by (simp add: in_int64_def max_int64_def min_int64_def)
  ultimately show ?thesis by (simp add: wrap64_id)
qed

definition second :: duration where
  "second = 10 ^ 9"

definition millisecond :: duration where
  "millisecond = 10 ^ 6"

text \<open>\<open>t.Sub(u)\<close> saturates at the bounds of \<open>time.Duration\<close>.\<close>

definition time_Sub :: "time \<Rightarrow> time \<Rightarrow> duration" where
  "time_Sub t u = max min_int64 (min max_int64 (t - u))"

section \<open>Results\<close>

text \<open>What a call that may fail comes to: a value, an error, or a run-time panic.\<close>

datatype 'a result = Ok 'a | Err string | Panic

section \<open>Lemma collections\<close>

named_theorems op_defs \<open>definitions of the operations of the components\<close>
named_theorems inv_defs \<open>definitions of the invariants of the components\<close>

section \<open>Lists\<close>

text \<open>Exchanging two positions of an array.\<close>

definition swap_list :: "'a list \<Rightarrow> nat \<Rightarrow> nat \<Rightarrow> 'a list" where
  "swap_list xs i j = xs[i := xs ! j, j := xs ! i]"

lemma length_swap_list [simp]: "length (swap_list xs i j) = length xs"
  by (simp add: swap_list_def)

lemma nth_swap_list:
  "i < length xs \<Longrightarrow> j < length xs \<Longrightarrow> k < length xs \<Longrightarrow>
    swap_list xs i j ! k = (if k = i then xs ! j else if k = j then xs ! i else xs ! k)"
  by (auto simp: swap_list_def nth_list_update)

lemma mset_swap_list [simp]:
  "i < length xs \<Longrightarrow> j < length xs \<Longrightarrow> mset (swap_list xs i j) = mset xs"
  by (simp add: swap_list_def mset_swap)

lemma set_swap_list [simp]:
  "i < length xs \<Longrightarrow> j < length xs \<Longrightarrow> set (swap_list xs i j) = set xs"
  by (metis mset_swap_list set_mset_mset)

lemma distinct_swap_list [simp]:
  "i < length xs \<Longrightarrow> j < length xs \<Longrightarrow> distinct (swap_list xs i j) = distinct xs"
  by (simp add: swap_list_def)

lemma card_Collect_upd_in:
  assumes "finite {t. P (f t)}" and "\<not> P (f a)" and "P b"
  shows "card {t. P ((f(a := b)) t)} = Suc (card {t. P (f t)})"
proof -
  have "{t. P ((f(a := b)) t)} = insert a {t. P (f t)}"
    using assms(3) by auto
  with assms show ?thesis by simp
qed

lemma card_Collect_upd_out:
  assumes "finite {t. P (f t)}" and "P (f a)" and "\<not> P b"
  shows "Suc (card {t. P ((f(a := b)) t)}) = card {t. P (f t)}"
proof -
  have "{t. P ((f(a := b)) t)} = {t. P (f t)} - {a}"
    using assms(3) by auto
  moreover have "a \<in> {t. P (f t)}" using assms(2) by simp
  ultimately show ?thesis
    using assms(1) by (metis card_Suc_Diff1)
qed

lemma finite_Collect_upd:
  "finite {t. P (f t)} \<Longrightarrow> finite {t. P ((f(a := b)) t)}"
  by (rule finite_subset [of _ "insert a {t. P (f t)}"]) auto

end
