(* ===== verification/Go_Heap.thy ===== *)
theory Go_Heap
  imports Prelude
begin

text \<open>
  The functions of Go's \<open>container/heap\<close> that the delaying queues use, over the operations \<open>Less\<close>
  and \<open>Swap\<close> of a \<open>heap.Interface\<close>, and their correctness. The locale \<open>array_heap\<close> is that
  interface: a client that shows that its \<open>Less\<close> compares keys and its \<open>Swap\<close> exchanges them gets
  the heap order of every operation, and any further fact that each single swap keeps.
\<close>

section \<open>The algorithms\<close>

function heap_up :: "('h \<Rightarrow> nat \<Rightarrow> nat \<Rightarrow> bool) \<Rightarrow> ('h \<Rightarrow> nat \<Rightarrow> nat \<Rightarrow> 'h) \<Rightarrow> 'h \<Rightarrow> nat \<Rightarrow> 'h" where
  "heap_up lt sw h j =
     (let i = (j - 1) div 2
      in if i = j \<or> \<not> lt h j i then h else heap_up lt sw (sw h i j) i)"
  by pat_completeness auto
termination
  by (relation "measure (\<lambda>(lt, sw, h, j). j)") auto

function heap_down_loop ::
    "('h \<Rightarrow> nat \<Rightarrow> nat \<Rightarrow> bool) \<Rightarrow> ('h \<Rightarrow> nat \<Rightarrow> nat \<Rightarrow> 'h) \<Rightarrow> 'h \<Rightarrow> nat \<Rightarrow> nat \<Rightarrow> 'h \<times> nat" where
  "heap_down_loop lt sw h i n =
     (let j1 = 2 * i + 1
      in if j1 \<ge> n then (h, i)
         else
           let j = (if j1 + 1 < n \<and> lt h (j1 + 1) j1 then j1 + 1 else j1)
           in if \<not> lt h j i then (h, i) else heap_down_loop lt sw (sw h i j) j n)"
  by pat_completeness auto
termination
  by (relation "measure (\<lambda>(lt, sw, h, i, n). n - i)") (auto split: if_splits)

declare heap_up.simps [simp del] heap_down_loop.simps [simp del]

text \<open>The loop in two branches, with the child it picks named.\<close>

definition least_child :: "('h \<Rightarrow> nat \<Rightarrow> nat \<Rightarrow> bool) \<Rightarrow> 'h \<Rightarrow> nat \<Rightarrow> nat \<Rightarrow> nat" where
  "least_child lt h i n =
     (if 2 * i + 2 < n \<and> lt h (2 * i + 2) (2 * i + 1) then 2 * i + 2 else 2 * i + 1)"

lemma heap_down_loop_unfold:
  "heap_down_loop lt sw h i n =
     (if n \<le> 2 * i + 1 \<or> \<not> lt h (least_child lt h i n) i then (h, i)
      else heap_down_loop lt sw (sw h i (least_child lt h i n)) (least_child lt h i n) n)"
  by (subst heap_down_loop.simps) (simp add: Let_def least_child_def)

definition heap_down ::
    "('h \<Rightarrow> nat \<Rightarrow> nat \<Rightarrow> bool) \<Rightarrow> ('h \<Rightarrow> nat \<Rightarrow> nat \<Rightarrow> 'h) \<Rightarrow> 'h \<Rightarrow> nat \<Rightarrow> nat \<Rightarrow> 'h \<times> bool" where
  "heap_down lt sw h i0 n = (case heap_down_loop lt sw h i0 n of (h', i) \<Rightarrow> (h', i0 < i))"

lemma heap_down_sel [simp]:
  "fst (heap_down lt sw h i n) = fst (heap_down_loop lt sw h i n)"
  "snd (heap_down lt sw h i n) \<longleftrightarrow> i < snd (heap_down_loop lt sw h i n)"
  by (simp_all add: heap_down_def split_beta)

definition heap_Init ::
    "('h \<Rightarrow> nat) \<Rightarrow> ('h \<Rightarrow> nat \<Rightarrow> nat \<Rightarrow> bool) \<Rightarrow> ('h \<Rightarrow> nat \<Rightarrow> nat \<Rightarrow> 'h) \<Rightarrow> 'h \<Rightarrow> 'h" where
  "heap_Init len lt sw h =
     (let n = len h in foldl (\<lambda>h i. fst (heap_down lt sw h i n)) h (rev [0..<n div 2]))"

definition heap_Fix ::
    "('h \<Rightarrow> nat) \<Rightarrow> ('h \<Rightarrow> nat \<Rightarrow> nat \<Rightarrow> bool) \<Rightarrow> ('h \<Rightarrow> nat \<Rightarrow> nat \<Rightarrow> 'h) \<Rightarrow> 'h \<Rightarrow> nat \<Rightarrow> 'h" where
  "heap_Fix len lt sw h i =
     (case heap_down lt sw h i (len h) of
        (h', moved) \<Rightarrow> if moved then h' else heap_up lt sw h' i)"

lemma heap_down_loop_len:
  assumes "\<And>h i j. len (sw h i j) = len h"
  shows "len (fst (heap_down_loop lt sw h i n)) = len h"
proof (induction "n - i" arbitrary: h i rule: less_induct)
  case less
  have "i < least_child lt h i n" by (auto simp: least_child_def)
  then have "len (fst (heap_down_loop lt sw (sw h i (least_child lt h i n)) (least_child lt h i n) n)) = len h"
    if "\<not> n \<le> 2 * i + 1"
    using less [of "least_child lt h i n"] assms that by simp
  then show ?case by (simp add: heap_down_loop_unfold [of lt sw h i n])
qed

section \<open>Heap order on keys\<close>

definition parent :: "nat \<Rightarrow> nat" where
  "parent k = (k - 1) div 2"

lemma parent_less: "0 < k \<Longrightarrow> parent k < k"
  by (auto simp: parent_def)

lemma parent_iff: "0 < k \<Longrightarrow> parent k = i \<longleftrightarrow> k = 2 * i + 1 \<or> k = 2 * i + 2"
  by (auto simp: parent_def)

text \<open>Order on the edges whose upper end is at or below position \<open>lo\<close>, up to length \<open>n\<close>.\<close>

definition ordered_from :: "nat \<Rightarrow> (nat \<Rightarrow> int) \<Rightarrow> nat \<Rightarrow> bool" where
  "ordered_from lo K n \<longleftrightarrow> (\<forall>k<n. 0 < k \<longrightarrow> lo \<le> parent k \<longrightarrow> K (parent k) \<le> K k)"

abbreviation heap_ordered :: "(nat \<Rightarrow> int) \<Rightarrow> nat \<Rightarrow> bool" where
  "heap_ordered \<equiv> ordered_from 0"

text \<open>Ordered except that position \<open>i\<close> may be too large for its children.\<close>

definition ordered_but_down :: "nat \<Rightarrow> (nat \<Rightarrow> int) \<Rightarrow> nat \<Rightarrow> nat \<Rightarrow> bool" where
  "ordered_but_down lo K n i \<longleftrightarrow>
     (\<forall>k<n. 0 < k \<longrightarrow> lo \<le> parent k \<longrightarrow> parent k \<noteq> i \<longrightarrow> K (parent k) \<le> K k) \<and>
     (\<forall>k<n. 0 < k \<longrightarrow> parent k = i \<longrightarrow> 0 < i \<longrightarrow> lo \<le> parent i \<longrightarrow> K (parent i) \<le> K k)"

text \<open>Ordered except that position \<open>i\<close> may be too small for its parent.\<close>

definition ordered_but_up :: "(nat \<Rightarrow> int) \<Rightarrow> nat \<Rightarrow> nat \<Rightarrow> bool" where
  "ordered_but_up K n i \<longleftrightarrow>
     (\<forall>k<n. 0 < k \<longrightarrow> k \<noteq> i \<longrightarrow> K (parent k) \<le> K k) \<and>
     (\<forall>k<n. 0 < k \<longrightarrow> parent k = i \<longrightarrow> 0 < i \<longrightarrow> K (parent i) \<le> K k)"

text \<open>Ordered except that the key at position \<open>i\<close> is arbitrary.\<close>

definition ordered_but_at :: "(nat \<Rightarrow> int) \<Rightarrow> nat \<Rightarrow> nat \<Rightarrow> bool" where
  "ordered_but_at K n i \<longleftrightarrow>
     (\<forall>k<n. 0 < k \<longrightarrow> k \<noteq> i \<longrightarrow> parent k \<noteq> i \<longrightarrow> K (parent k) \<le> K k) \<and>
     (\<forall>k<n. 0 < k \<longrightarrow> parent k = i \<longrightarrow> 0 < i \<longrightarrow> K (parent i) \<le> K k)"

definition swapped :: "(nat \<Rightarrow> 'k) \<Rightarrow> nat \<Rightarrow> nat \<Rightarrow> nat \<Rightarrow> 'k" where
  "swapped K i j k = (if k = i then K j else if k = j then K i else K k)"

lemma heap_root_least:
  assumes "heap_ordered K n" and "k < n"
  shows "K 0 \<le> K k"
  using assms(2)
proof (induction k rule: less_induct)
  case (less k)
  show ?case
  proof (cases "k = 0")
    case False
    with parent_less [of k] less have "K 0 \<le> K (parent k)" by simp
    also from assms(1) less(2) False have "\<dots> \<le> K k" by (simp add: ordered_from_def)
    finally show ?thesis .
  qed simp
qed

text \<open>One step of sifting down: exchange with the smaller child.\<close>

lemma down_step:
  assumes "ordered_but_down lo K n i" and "j < n" and "0 < j" and "parent j = i" and "lo \<le> i"
    and "K j < K i" and "\<And>k. k < n \<Longrightarrow> 0 < k \<Longrightarrow> parent k = i \<Longrightarrow> K j \<le> K k"
  shows "ordered_but_down lo (swapped K i j) n j"
proof -
  have ij: "i < j" using parent_less [of j] assms(3,4) by simp
  have edge: "swapped K i j (parent k) \<le> swapped K i j k"
    if k: "k < n" "0 < k" "lo \<le> parent k" "parent k \<noteq> j" for k
  proof -
    have "parent k < k" using k(2) by (rule parent_less)
    then show ?thesis
      using assms k ij unfolding ordered_but_down_def swapped_def
      by (smt (verit, best))
  qed
  have grand: "swapped K i j (parent j) \<le> swapped K i j k"
    if k: "k < n" "0 < k" "parent k = j" for k
  proof -
    have "parent k < k" using k(2) by (rule parent_less)
    moreover have "K j \<le> K k"
      using assms(1,4,5) k ij unfolding ordered_but_down_def
      by (metis less_imp_le_nat less_le_trans nat_neq_iff)
    ultimately show ?thesis using k ij assms(4) by (auto simp: swapped_def)
  qed
  show ?thesis unfolding ordered_but_down_def using edge grand by blast
qed

lemma up_step:
  assumes "ordered_but_up K n j" and "j < n" and "0 < j" and "K j < K (parent j)"
  shows "ordered_but_up (swapped K (parent j) j) n (parent j)"
proof -
  let ?i = "parent j"
  have ij: "?i < j" using assms(3) by (rule parent_less)
  have edge: "swapped K ?i j (parent k) \<le> swapped K ?i j k"
    if k: "k < n" "0 < k" "k \<noteq> ?i" for k
  proof -
    have "parent k < k" using k(2) by (rule parent_less)
    then show ?thesis
      using assms k ij unfolding ordered_but_up_def swapped_def
      by (smt (verit, best))
  qed
  have grand: "swapped K ?i j (parent ?i) \<le> swapped K ?i j k"
    if k: "k < n" "0 < k" "parent k = ?i" "0 < ?i" for k
  proof -
    have "parent ?i < ?i" using k(4) by (rule parent_less)
    moreover have "K (parent ?i) \<le> K ?i"
      using assms(1,2) ij k(4) unfolding ordered_but_up_def by auto
    moreover have "K ?i \<le> K k" if "k \<noteq> j"
      using assms(1) k that unfolding ordered_but_up_def by metis
    moreover have "k \<noteq> ?i" using parent_less [OF k(2)] k(3) by simp
    ultimately show ?thesis using ij by (auto simp: swapped_def)
  qed
  show ?thesis unfolding ordered_but_up_def using edge grand by blast
qed

lemma at_step:
  assumes "ordered_but_at K n i" and "j < n" and "0 < j" and "parent j = i"
    and "K j < K i" and "\<And>k. k < n \<Longrightarrow> 0 < k \<Longrightarrow> parent k = i \<Longrightarrow> K j \<le> K k"
  shows "ordered_but_down 0 (swapped K i j) n j"
proof -
  have ij: "i < j" using parent_less [of j] assms(3,4) by simp
  have edge: "swapped K i j (parent k) \<le> swapped K i j k"
    if k: "k < n" "0 < k" "parent k \<noteq> j" for k
  proof -
    have "parent k < k" using k(2) by (rule parent_less)
    then show ?thesis
      using assms k ij unfolding ordered_but_at_def swapped_def
      by (smt (verit, best))
  qed
  have grand: "swapped K i j (parent j) \<le> swapped K i j k"
    if k: "k < n" "0 < k" "parent k = j" for k
  proof -
    have "parent k < k" using k(2) by (rule parent_less)
    moreover have "K j \<le> K k"
      using assms(1) k ij calculation unfolding ordered_but_at_def by (metis nat_neq_iff not_less_iff_gr_or_eq)
    ultimately show ?thesis using k ij assms(4) by (auto simp: swapped_def)
  qed
  show ?thesis unfolding ordered_but_down_def using edge grand by blast
qed

text \<open>The predicates look at the keys below the length only.\<close>

lemma ordered_from_cong:
  assumes "\<And>k. k < n \<Longrightarrow> K k = K' k"
  shows "ordered_from lo K n = ordered_from lo K' n"
  using assms parent_less unfolding ordered_from_def by (smt (verit, best) less_trans)

lemma ordered_but_down_cong:
  assumes "\<And>k. k < n \<Longrightarrow> K k = K' k" and "i < n"
  shows "ordered_but_down lo K n i = ordered_but_down lo K' n i"
  using assms parent_less unfolding ordered_but_down_def by (smt (verit, best) less_trans)

lemma ordered_but_up_cong:
  assumes "\<And>k. k < n \<Longrightarrow> K k = K' k" and "i < n"
  shows "ordered_but_up K n i = ordered_but_up K' n i"
  using assms parent_less unfolding ordered_but_up_def by (smt (verit, best) less_trans)

lemma ordered_but_up_root: "ordered_but_up K n 0 \<Longrightarrow> heap_ordered K n"
  by (simp add: ordered_but_up_def ordered_from_def)

lemma ordered_but_up_done:
  "ordered_but_up K n j \<Longrightarrow> K (parent j) \<le> K j \<Longrightarrow> heap_ordered K n"
  by (auto simp: ordered_but_up_def ordered_from_def)

lemma ordered_but_down_done:
  "ordered_but_down lo K n i \<Longrightarrow> (\<And>k. k < n \<Longrightarrow> 0 < k \<Longrightarrow> parent k = i \<Longrightarrow> K i \<le> K k) \<Longrightarrow>
    ordered_from lo K n"
  unfolding ordered_but_down_def ordered_from_def by metis

lemma ordered_but_at_done:
  "ordered_but_at K n i \<Longrightarrow> (\<And>k. k < n \<Longrightarrow> 0 < k \<Longrightarrow> parent k = i \<Longrightarrow> K i \<le> K k) \<Longrightarrow>
    ordered_but_up K n i"
  unfolding ordered_but_at_def ordered_but_up_def by metis

section \<open>The interface\<close>

locale array_heap =
  fixes len :: "'h \<Rightarrow> nat"
    and lt :: "'h \<Rightarrow> nat \<Rightarrow> nat \<Rightarrow> bool"
    and sw :: "'h \<Rightarrow> nat \<Rightarrow> nat \<Rightarrow> 'h"
    and key :: "'h \<Rightarrow> nat \<Rightarrow> int"
    and ok :: "'h \<Rightarrow> bool"
  assumes lt_key: "ok h \<Longrightarrow> i < len h \<Longrightarrow> j < len h \<Longrightarrow> lt h i j \<longleftrightarrow> key h i < key h j"
    and ok_sw: "ok h \<Longrightarrow> i < len h \<Longrightarrow> j < len h \<Longrightarrow> ok (sw h i j)"
    and len_sw: "ok h \<Longrightarrow> i < len h \<Longrightarrow> j < len h \<Longrightarrow> len (sw h i j) = len h"
    and key_sw: "ok h \<Longrightarrow> i < len h \<Longrightarrow> j < len h \<Longrightarrow> k < len h \<Longrightarrow>
      key (sw h i j) k = swapped (key h) i j k"
begin

text \<open>What every swap keeps, sifting keeps.\<close>

lemma heap_up_keeps:
  assumes "P h" and "ok h" and "j < len h"
    and keeps: "\<And>h i j. P h \<Longrightarrow> ok h \<Longrightarrow> i < len h \<Longrightarrow> j < len h \<Longrightarrow> P (sw h i j)"
  shows "P (heap_up lt sw h j) \<and> ok (heap_up lt sw h j) \<and> len (heap_up lt sw h j) = len h"
  using assms(1-3)
proof (induction j arbitrary: h rule: less_induct)
  case (less j)
  let ?i = "(j - 1) div 2"
  show ?case
  proof (cases "?i = j \<or> \<not> lt h j ?i")
    case True
    with less.prems show ?thesis by (simp add: heap_up.simps [of lt sw h j] Let_def)
  next
    case False
    then have i: "?i < j" "?i < len h" using less.prems by auto
    with less.prems keeps [of h ?i j] less.IH [of ?i "sw h ?i j"] False show ?thesis
      by (simp add: heap_up.simps [of lt sw h j] Let_def ok_sw len_sw)
  qed
qed

lemma heap_down_loop_keeps:
  assumes "P h" and "ok h" and "n \<le> len h"
    and keeps: "\<And>h i j. P h \<Longrightarrow> ok h \<Longrightarrow> n \<le> len h \<Longrightarrow> i < n \<Longrightarrow> j < n \<Longrightarrow> P (sw h i j)"
  shows "P (fst (heap_down_loop lt sw h i n)) \<and> ok (fst (heap_down_loop lt sw h i n)) \<and>
    len (fst (heap_down_loop lt sw h i n)) = len h \<and> i \<le> snd (heap_down_loop lt sw h i n)"
  using assms(1-3)
proof (induction "n - i" arbitrary: h i rule: less_induct)
  case less
  let ?j = "least_child lt h i n"
  show ?case
  proof (cases "n \<le> 2 * i + 1 \<or> \<not> lt h ?j i")
    case True
    with less.prems show ?thesis by (simp add: heap_down_loop_unfold [of lt sw h i n])
  next
    case False
    then have j: "?j < n" "i < ?j" by (auto simp: least_child_def)
    have rec: "heap_down_loop lt sw h i n = heap_down_loop lt sw (sw h i ?j) ?j n"
      using False by (simp add: heap_down_loop_unfold [of lt sw h i n])
    have "P (sw h i ?j)" using keeps less.prems j by auto
    moreover have "n - ?j < n - i" using j by linarith
    ultimately show ?thesis
      using less.hyps [of ?j "sw h i ?j"] less.prems j unfolding rec by (auto simp: ok_sw len_sw)
  qed
qed

lemma heap_up_ordered:
  assumes "ok h" and "j < len h" and "ordered_but_up (key h) (len h) j"
  shows "heap_ordered (key (heap_up lt sw h j)) (len h)"
  using assms
proof (induction j arbitrary: h rule: less_induct)
  case (less j)
  let ?i = "(j - 1) div 2"
  have i: "?i = parent j" by (simp add: parent_def)
  show ?case
  proof (cases "j = 0 \<or> \<not> lt h j ?i")
    case True
    with less.prems have "heap_up lt sw h j = h" "j = 0 \<or> key h (parent j) \<le> key h j"
      by (auto simp: heap_up.simps [of lt sw h j] Let_def parent_def lt_key)
    with less.prems(3) show ?thesis
      by (auto intro: ordered_but_up_root ordered_but_up_done)
  next
    case False
    then have j: "0 < j" "?i < j" "?i < len h" using less.prems(2) by auto
    have rec: "heap_up lt sw h j = heap_up lt sw (sw h ?i j) ?i"
      using False j by (simp add: heap_up.simps [of lt sw h j] Let_def)
    have "ordered_but_up (swapped (key h) ?i j) (len h) ?i"
      unfolding i using less.prems j False by (intro up_step) (auto simp: lt_key parent_def)
    then have "ordered_but_up (key (sw h ?i j)) (len h) ?i"
      using ordered_but_up_cong [of "len h" "key (sw h ?i j)" "swapped (key h) ?i j"] key_sw less.prems j
      by simp
    with less.IH [of ?i "sw h ?i j"] less.prems j show ?thesis
      by (simp add: rec ok_sw len_sw)
  qed
qed

text \<open>The child that \<open>down\<close> picks is a least child.\<close>

lemma down_child:
  assumes "ok h" and "n \<le> len h" and "2 * i + 1 < n"
    and j: "j = least_child lt h i n"
  shows "j < n" and "0 < j" and "parent j = i" and "lt h j i \<longleftrightarrow> key h j < key h i"
    and "\<And>k. k < n \<Longrightarrow> 0 < k \<Longrightarrow> parent k = i \<Longrightarrow> key h j \<le> key h k"
proof -
  show "j < n" "0 < j" using assms(3) by (auto simp: j least_child_def)
  show "parent j = i" unfolding j least_child_def by (auto simp: parent_def)
  show "lt h j i \<longleftrightarrow> key h j < key h i"
    using assms(1-3) by (intro lt_key) (auto simp: j least_child_def)
  fix k assume k: "k < n" "0 < k" "parent k = i"
  then have "k = 2 * i + 1 \<or> k = 2 * i + 2" by (simp add: parent_iff)
  moreover have "lt h (2 * i + 2) (2 * i + 1) \<longleftrightarrow> key h (2 * i + 2) < key h (2 * i + 1)"
    if "2 * i + 2 < n"
    using assms(1,2) that by (intro lt_key) auto
  ultimately show "key h j \<le> key h k" using k unfolding j least_child_def by auto
qed

lemma heap_down_loop_ordered:
  assumes "ok h" and "n \<le> len h" and "i < n" and "lo \<le> i" and "ordered_but_down lo (key h) n i"
  shows "ordered_from lo (key (fst (heap_down_loop lt sw h i n))) n"
  using assms
proof (induction "n - i" arbitrary: h i rule: less_induct)
  case less
  show ?case
  proof (cases "2 * i + 1 < n")
    case False
    then have "heap_down_loop lt sw h i n = (h, i)" by (simp add: heap_down_loop_unfold [of lt sw h i n])
    moreover have "ordered_from lo (key h) n"
      by (rule ordered_but_down_done [OF less.prems(5)]) (use False in \<open>auto simp: parent_iff\<close>)
    ultimately show ?thesis by simp
  next
    case True
    define j where "j = least_child lt h i n"
    note child = down_child [OF less.prems(1,2) True j_def]
    have unfold: "heap_down_loop lt sw h i n =
        (if \<not> lt h j i then (h, i) else heap_down_loop lt sw (sw h i j) j n)"
      using True by (simp add: heap_down_loop_unfold [of lt sw h i n] j_def)
    show ?thesis
    proof (cases "lt h j i")
      case False
      then have "key h i \<le> key h k" if "k < n" "0 < k" "parent k = i" for k
        using child(4) child(5) [OF that] by linarith
      with ordered_but_down_done [OF less.prems(5)] False show ?thesis by (simp add: unfold)
    next
      case lt: True
      have ij: "i < j" using parent_less [OF child(2)] child(3) by simp
      have "ordered_but_down lo (swapped (key h) i j) n j"
        using less.prems(4,5) child lt by (intro down_step) auto
      then have "ordered_but_down lo (key (sw h i j)) n j"
        using ordered_but_down_cong [of n "key (sw h i j)" "swapped (key h) i j" j] key_sw
          less.prems(1-3) child(1) by simp
      moreover have "n - j < n - i" using ij child(1) by linarith
      ultimately show ?thesis
        using less.hyps [of j "sw h i j"] less.prems child(1) ij lt
        by (simp add: unfold ok_sw len_sw)
    qed
  qed
qed

lemma heap_down_ordered:
  assumes "ok h" and "n \<le> len h" and "i < n" and "lo \<le> i" and "ordered_but_down lo (key h) n i"
  shows "ordered_from lo (key (fst (heap_down lt sw h i n))) n"
  using heap_down_loop_ordered [OF assms] by simp

lemma heap_down_keeps:
  assumes "P h" and "ok h" and "n \<le> len h"
    and "\<And>h i j. P h \<Longrightarrow> ok h \<Longrightarrow> n \<le> len h \<Longrightarrow> i < n \<Longrightarrow> j < n \<Longrightarrow> P (sw h i j)"
  shows "P (fst (heap_down lt sw h i n)) \<and> ok (fst (heap_down lt sw h i n)) \<and>
    len (fst (heap_down lt sw h i n)) = len h"
  using heap_down_loop_keeps [where P = P, OF assms] by simp

text \<open>\<open>down\<close> at a position with an arbitrary key: it moves and repairs, or the fault is above.\<close>

lemma heap_down_at:
  assumes "ok h" and "n \<le> len h" and "i < n" and "ordered_but_at (key h) n i"
  shows "if snd (heap_down lt sw h i n) then heap_ordered (key (fst (heap_down lt sw h i n))) n
    else fst (heap_down lt sw h i n) = h \<and> ordered_but_up (key h) n i"
proof (cases "2 * i + 1 < n")
  case False
  then have "heap_down_loop lt sw h i n = (h, i)" by (simp add: heap_down_loop_unfold [of lt sw h i n])
  moreover have "ordered_but_up (key h) n i"
    by (rule ordered_but_at_done [OF assms(4)]) (use False in \<open>auto simp: parent_iff\<close>)
  ultimately show ?thesis by simp
next
  case True
  define j where "j = least_child lt h i n"
  note child = down_child [OF assms(1,2) True j_def]
  have unfold: "heap_down_loop lt sw h i n =
      (if \<not> lt h j i then (h, i) else heap_down_loop lt sw (sw h i j) j n)"
    using True by (simp add: heap_down_loop_unfold [of lt sw h i n] j_def)
  show ?thesis
  proof (cases "lt h j i")
    case False
    then have "key h i \<le> key h k" if "k < n" "0 < k" "parent k = i" for k
      using child(4) child(5) [OF that] by linarith
    with ordered_but_at_done [OF assms(4)] False show ?thesis by (simp add: unfold)
  next
    case lt: True
    have ij: "i < j" using parent_less [OF child(2)] child(3) by simp
    have "ordered_but_down 0 (swapped (key h) i j) n j"
      using assms(4) child lt by (intro at_step) auto
    then have "ordered_but_down 0 (key (sw h i j)) n j"
      using ordered_but_down_cong [of n "key (sw h i j)" "swapped (key h) i j" j] key_sw
        assms(1-3) child(1) by simp
    with heap_down_loop_ordered [of "sw h i j" n j 0] assms child(1)
      heap_down_loop_keeps [of "\<lambda>_. True" "sw h i j" n j] lt ij
    show ?thesis by (auto simp: unfold ok_sw len_sw)
  qed
qed

lemma heap_Fix_keeps:
  assumes "P h" and "ok h" and "i < len h"
    and keeps: "\<And>h i j. P h \<Longrightarrow> ok h \<Longrightarrow> i < len h \<Longrightarrow> j < len h \<Longrightarrow> P (sw h i j)"
  shows "P (heap_Fix len lt sw h i) \<and> ok (heap_Fix len lt sw h i) \<and>
    len (heap_Fix len lt sw h i) = len h"
proof -
  obtain h' moved where d: "heap_down lt sw h i (len h) = (h', moved)" by fastforce
  have "P h' \<and> ok h' \<and> len h' = len h"
    using heap_down_keeps [where P = "\<lambda>h'. P h' \<and> len h' = len h", of h "len h" i] assms d
    by (force simp: len_sw)
  with heap_up_keeps [where P = P, of h' i] assms(3) keeps show ?thesis
    by (simp add: heap_Fix_def d)
qed

lemma heap_Fix_ordered:
  assumes "ok h" and "i < len h" and "ordered_but_at (key h) (len h) i"
  shows "heap_ordered (key (heap_Fix len lt sw h i)) (len h)"
  using heap_down_at [OF assms(1) order.refl assms(2,3)] heap_up_ordered [OF assms(1,2)]
  by (auto simp: heap_Fix_def split_beta split: if_splits)

lemma heap_Init_ordered:
  assumes "ok h"
  shows "heap_ordered (key (heap_Init len lt sw h)) (len h) \<and> len (heap_Init len lt sw h) = len h"
proof -
  let ?n = "len h"
  let ?f = "\<lambda>h i. fst (heap_down lt sw h i ?n)"
  have "ordered_from 0 (key (foldl ?f g (rev [0..<m]))) ?n \<and> len (foldl ?f g (rev [0..<m])) = ?n"
    if "ordered_from m (key g) ?n" "ok g" "len g = ?n" "m \<le> ?n" for m g
    using that
  proof (induction m arbitrary: g)
    case (Suc m)
    have "ordered_but_down m (key g) ?n m"
      using Suc.prems(1) parent_less [of m] by (auto simp: ordered_from_def ordered_but_down_def)
    then have "ordered_from m (key (?f g m)) ?n"
      using Suc.prems by (intro heap_down_ordered) auto
    moreover have "ok (?f g m) \<and> len (?f g m) = ?n"
      using heap_down_keeps [of "\<lambda>_. True" g ?n m] Suc.prems by simp
    ultimately show ?case using Suc.IH [of "?f g m"] Suc.prems(4) by simp
  qed simp
  moreover have "ordered_from (?n div 2) (key h) ?n"
    by (auto simp: ordered_from_def parent_def)
  ultimately show ?thesis using assms by (simp add: heap_Init_def Let_def)
qed

end

end
