(* ===== verification/Wait_Heap.thy ===== *)
theory Wait_Heap
  imports Go_Heap
begin

text \<open>
  The priority queue of waiting entries (\<open>pkg/workqueue/delaying_queue.go\<close>): \<open>waitFor\<close>,
  \<open>waitForPriorityQueue\<close> and \<open>insert\<close>. The slice holds pointers, and the map \<open>knownEntries\<close> of the
  waiting loop holds the same pointers: \<open>insert\<close> changes \<open>readyAt\<close> through the map and repairs the
  heap through \<open>index\<close>. The model keeps the aliasing: entries live in a memory, the slice and the map
  hold references. The abstraction forgets it: which item is due when.
\<close>

section \<open>Data\<close>

type_synonym ref = nat

record 'a waitFor =
  data :: 'a
  readyAt :: time
  index :: int

record 'a waitHeap =
  mem :: "ref \<Rightarrow> 'a waitFor"
  pq :: "ref list"

section \<open>heap.Interface\<close>

definition pq_Len :: "'a waitHeap \<Rightarrow> nat" where
  "pq_Len h = length (pq h)"

definition pq_Less :: "'a waitHeap \<Rightarrow> nat \<Rightarrow> nat \<Rightarrow> bool" where
  "pq_Less h i j \<longleftrightarrow> readyAt (mem h (pq h ! i)) < readyAt (mem h (pq h ! j))"

definition pq_Swap :: "'a waitHeap \<Rightarrow> nat \<Rightarrow> nat \<Rightarrow> 'a waitHeap" where
  "pq_Swap h i j =
     (let l = swap_list (pq h) i j;
          m1 = (mem h)(l ! i := (mem h (l ! i))\<lparr>index := int i\<rparr>);
          m2 = m1(l ! j := (m1 (l ! j))\<lparr>index := int j\<rparr>)
      in h\<lparr>mem := m2, pq := l\<rparr>)"

definition pq_Push :: "'a waitHeap \<Rightarrow> ref \<Rightarrow> 'a waitHeap" where
  "pq_Push h item =
     (let n = length (pq h)
      in h\<lparr>mem := (mem h)(item := (mem h item)\<lparr>index := int n\<rparr>), pq := pq h @ [item]\<rparr>)"

text \<open>\<open>Pop\<close> and \<open>Peek\<close> index into the slice, which panics when it is empty: \<open>None\<close>.\<close>

definition pq_Pop :: "'a waitHeap \<Rightarrow> (ref \<times> 'a waitHeap) option" where
  "pq_Pop h =
     (if pq h = [] then None
      else let item = last (pq h)
           in Some (item, h\<lparr>mem := (mem h)(item := (mem h item)\<lparr>index := -1\<rparr>), pq := butlast (pq h)\<rparr>))"

definition pq_Peek :: "'a waitHeap \<Rightarrow> ref option" where
  "pq_Peek h = (case pq h of [] \<Rightarrow> None | r # _ \<Rightarrow> Some r)"

text \<open>\<open>heap.Push\<close> and \<open>heap.Pop\<close> of \<open>container/heap\<close> on this type.\<close>

definition heap_Push :: "'a waitHeap \<Rightarrow> ref \<Rightarrow> 'a waitHeap" where
  "heap_Push h item =
     (let h1 = pq_Push h item in heap_up pq_Less pq_Swap h1 (pq_Len h1 - 1))"

definition heap_Pop :: "'a waitHeap \<Rightarrow> (ref \<times> 'a waitHeap) option" where
  "heap_Pop h =
     (if pq_Len h = 0 then None
      else let n = pq_Len h - 1;
               h1 = pq_Swap h 0 n;
               h2 = fst (heap_down pq_Less pq_Swap h1 0 n)
           in pq_Pop h2)"

section \<open>insert\<close>

definition insert_entry ::
    "'a waitHeap \<Rightarrow> ('a \<rightharpoonup> ref) \<Rightarrow> ref \<Rightarrow> 'a waitHeap \<times> ('a \<rightharpoonup> ref)" where
  "insert_entry h knownEntries entry =
     (case knownEntries (data (mem h entry)) of
        Some existing \<Rightarrow>
          if readyAt (mem h entry) < readyAt (mem h existing)
          then
            let h1 = h\<lparr>mem := (mem h)(existing :=
                              (mem h existing)\<lparr>readyAt := readyAt (mem h entry)\<rparr>)\<rparr>
            in (heap_Fix pq_Len pq_Less pq_Swap h1 (nat (index (mem h1 existing))), knownEntries)
          else (h, knownEntries)
      | None \<Rightarrow> (heap_Push h entry, knownEntries(data (mem h entry) \<mapsto> entry)))"

section \<open>Well-formed heaps\<close>

definition pq_ok :: "'a waitHeap \<Rightarrow> bool" where
  "pq_ok h \<longleftrightarrow> distinct (pq h) \<and> (\<forall>i<length (pq h). index (mem h (pq h ! i)) = int i)"

definition pq_key :: "'a waitHeap \<Rightarrow> nat \<Rightarrow> time" where
  "pq_key h i = readyAt (mem h (pq h ! i))"

lemma pq_Swap_fields [simp]:
  "pq (pq_Swap h i j) = swap_list (pq h) i j"
  "data (mem (pq_Swap h i j) r) = data (mem h r)"
  "readyAt (mem (pq_Swap h i j) r) = readyAt (mem h r)"
  by (auto simp: pq_Swap_def Let_def)

lemma pq_ok_Swap:
  assumes "pq_ok h" and "i < length (pq h)" and "j < length (pq h)"
  shows "pq_ok (pq_Swap h i j)"
proof -
  let ?l = "swap_list (pq h) i j"
  have d: "distinct ?l" using assms by (simp add: pq_ok_def)
  have "index (mem (pq_Swap h i j) (?l ! k)) = int k" if k: "k < length (pq h)" for k
  proof (cases "k = i \<or> k = j")
    case True
    moreover have "?l ! i \<noteq> ?l ! j" if "i \<noteq> j" using d assms that by (simp add: nth_eq_iff_index_eq)
    ultimately show ?thesis by (auto simp: pq_Swap_def Let_def)
  next
    case False
    then have "?l ! k = pq h ! k" "?l ! k \<noteq> ?l ! i" "?l ! k \<noteq> ?l ! j"
      using d assms k by (auto simp: nth_swap_list nth_eq_iff_index_eq)
    with assms(1) k show ?thesis by (simp add: pq_Swap_def Let_def pq_ok_def)
  qed
  with d show ?thesis by (simp add: pq_ok_def)
qed

interpretation wait_heap: array_heap pq_Len pq_Less pq_Swap pq_key pq_ok
proof (unfold_locales, goal_cases)
  case (1 h i j)
  show ?case by (simp add: pq_Less_def pq_key_def)
next
  case (2 h i j)
  then show ?case by (simp add: pq_ok_Swap pq_Len_def)
next
  case (3 h i j)
  show ?case by (simp add: pq_Len_def)
next
  case (4 h i j k)
  then show ?case by (auto simp: pq_key_def swapped_def pq_Len_def nth_swap_list)
qed

text \<open>Swaps move references; the set of references and the entries' data and times stay.\<close>

definition same_entries :: "'a waitHeap \<Rightarrow> 'a waitHeap \<Rightarrow> bool" where
  "same_entries h h' \<longleftrightarrow> set (pq h') = set (pq h) \<and> length (pq h') = length (pq h) \<and>
     (\<forall>r. data (mem h' r) = data (mem h r) \<and> readyAt (mem h' r) = readyAt (mem h r))"

lemma same_entries_refl [simp]: "same_entries h h"
  by (simp add: same_entries_def)

lemma same_entries_Swap:
  "same_entries h h' \<Longrightarrow> i < pq_Len h' \<Longrightarrow> j < pq_Len h' \<Longrightarrow> same_entries h (pq_Swap h' i j)"
  by (simp add: same_entries_def pq_Len_def)

abbreviation pq_ordered :: "'a waitHeap \<Rightarrow> bool" where
  "pq_ordered h \<equiv> heap_ordered (pq_key h) (length (pq h))"

lemma pq_root_least:
  assumes "pq_ordered h" and "r \<in> set (pq h)"
  shows "readyAt (mem h (pq h ! 0)) \<le> readyAt (mem h r)"
proof -
  from assms(2) obtain k where "k < length (pq h)" "pq h ! k = r" by (auto simp: in_set_conv_nth)
  with heap_root_least [OF assms(1)] show ?thesis by (force simp: pq_key_def)
qed

section \<open>Push, Pop and Fix on well-formed heaps\<close>

lemma pq_ok_Push:
  assumes "pq_ok h" and "r \<notin> set (pq h)"
  shows "pq_ok (pq_Push h r)"
  using assms nth_mem [of _ "pq h"] by (auto simp: pq_ok_def pq_Push_def Let_def nth_append less_Suc_eq)

lemma heap_Push_correct:
  assumes "pq_ok h" and "pq_ordered h" and "r \<notin> set (pq h)"
  shows "pq_ok (heap_Push h r) \<and> pq_ordered (heap_Push h r) \<and>
    set (pq (heap_Push h r)) = insert r (set (pq h)) \<and>
    (\<forall>x. data (mem (heap_Push h r) x) = data (mem h x) \<and>
         readyAt (mem (heap_Push h r) x) = readyAt (mem h x))"
proof -
  let ?h1 = "pq_Push h r" and ?n = "length (pq h)"
  have len: "pq_Len ?h1 = Suc ?n" by (simp add: pq_Len_def pq_Push_def Let_def)
  have ok: "pq_ok ?h1" using assms by (simp add: pq_ok_Push)
  have key: "pq_key ?h1 k = pq_key h k" if "k < ?n" for k
    using that by (auto simp: pq_key_def pq_Push_def Let_def nth_append)
  have "ordered_but_up (pq_key ?h1) (Suc ?n) ?n"
    unfolding ordered_but_up_def
  proof (intro conjI allI impI)
    fix k assume k: "k < Suc ?n" "0 < k" "k \<noteq> ?n"
    then have "parent k < ?n" "k < ?n" using parent_less [of k] by auto
    with assms(2) k key show "pq_key ?h1 (parent k) \<le> pq_key ?h1 k"
      by (simp add: ordered_from_def)
  next
    fix k assume "k < Suc ?n" "0 < k" "parent k = ?n" "0 < ?n"
    with parent_less [of k] show "pq_key ?h1 (parent ?n) \<le> pq_key ?h1 k" by simp
  qed
  with wait_heap.heap_up_ordered [of ?h1 ?n] ok len
  have "heap_ordered (pq_key (heap_Push h r)) (Suc ?n)"
    by (simp add: heap_Push_def Let_def)
  moreover have "same_entries ?h1 (heap_Push h r)" "pq_ok (heap_Push h r)"
    using wait_heap.heap_up_keeps [where P = "same_entries ?h1", of ?h1 ?n] ok len
    by (auto simp: heap_Push_def Let_def same_entries_Swap)
  ultimately show ?thesis
    using len by (auto simp: same_entries_def pq_Push_def Let_def pq_Len_def)
qed

lemma pq_down_length [simp]:
  "length (pq (fst (heap_down_loop pq_Less pq_Swap h i n))) = length (pq h)"
  using heap_down_loop_len [where len = pq_Len and sw = pq_Swap] by (simp add: pq_Len_def)

lemma pq_down_empty [simp]:
  "pq (fst (heap_down_loop pq_Less pq_Swap h i n)) = [] \<longleftrightarrow> pq h = []"
  by (metis length_0_conv pq_down_length)

lemma heap_Pop_empty [simp]: "heap_Pop h = None \<longleftrightarrow> pq h = []"
proof -
  have "pq (pq_Swap h i j) = [] \<longleftrightarrow> pq h = []" for i j
    by (metis length_0_conv length_swap_list pq_Swap_fields(1))
  then show ?thesis by (simp add: heap_Pop_def pq_Pop_def pq_Len_def Let_def)
qed

lemma heap_Pop_length: "heap_Pop h = Some (r, h') \<Longrightarrow> length (pq h') < length (pq h)"
  by (auto simp: heap_Pop_def pq_Pop_def pq_Len_def Let_def split: if_splits)

text \<open>\<open>Swap(0,n)\<close> and \<open>down(0,n)\<close> put the old root last and keep the rest a heap.\<close>

lemma heap_Pop_prepare:
  assumes "pq_ok h" and "pq_ordered h" and "pq h \<noteq> []"
  defines "n \<equiv> length (pq h) - 1"
  defines "h2 \<equiv> fst (heap_down pq_Less pq_Swap (pq_Swap h 0 n) 0 n)"
  shows "same_entries h h2" and "pq_ok h2" and "pq h2 ! n = pq h ! 0"
    and "heap_ordered (pq_key h2) n"
proof -
  let ?h1 = "pq_Swap h 0 n"
  have n: "n < length (pq h)" using assms(3) by (simp add: n_def)
  have ok1: "pq_ok ?h1" and e1: "same_entries h ?h1" and root: "pq ?h1 ! n = pq h ! 0"
    using assms(1,3) n by (auto simp: pq_ok_Swap same_entries_Swap pq_Len_def nth_swap_list)
  let ?P = "\<lambda>g. same_entries h g \<and> pq g ! n = pq h ! 0"
  have "?P h2 \<and> pq_ok h2 \<and> pq_Len h2 = pq_Len ?h1"
    unfolding h2_def
  proof (rule wait_heap.heap_down_keeps [where P = ?P])
    show "?P ?h1" using e1 root by simp
    show "pq_ok ?h1" by (rule ok1)
    show "n \<le> pq_Len ?h1" using n by (simp add: pq_Len_def)
  next
    fix g i j assume "?P g" "pq_ok g" "n \<le> pq_Len g" "i < n" "j < n"
    with n show "?P (pq_Swap g i j)"
      by (auto simp: same_entries_Swap pq_Len_def same_entries_def nth_swap_list)
  qed
  then show "same_entries h h2" and "pq_ok h2" and "pq h2 ! n = pq h ! 0" by auto
  have "pq_key ?h1 k = pq_key h k" if "0 < k" "k < n" for k
    using that n assms(3) by (simp add: pq_key_def nth_swap_list)
  with assms(2) n have "ordered_but_down 0 (pq_key ?h1) n 0"
    by (auto simp: ordered_but_down_def ordered_from_def)
      (metis less_trans parent_less not_gr_zero)
  with wait_heap.heap_down_ordered [of ?h1 n 0 0] ok1 n
  show "heap_ordered (pq_key h2) n"
    by (cases "n = 0") (auto simp: h2_def pq_Len_def ordered_from_def)
qed

lemma heap_Pop_correct:
  assumes "pq_ok h" and "pq_ordered h" and "pq h \<noteq> []"
  obtains h' where "heap_Pop h = Some (pq h ! 0, h')" and "pq_ok h'" and "pq_ordered h'"
    and "set (pq h') = set (pq h) - {pq h ! 0}"
    and "\<And>r. data (mem h' r) = data (mem h r)" and "\<And>r. readyAt (mem h' r) = readyAt (mem h r)"
proof -
  let ?n = "length (pq h) - 1"
  define h2 where "h2 = fst (heap_down pq_Less pq_Swap (pq_Swap h 0 ?n) 0 ?n)"
  note P = heap_Pop_prepare [OF assms, folded h2_def]
  let ?r = "pq h ! 0"
  let ?h' = "h2\<lparr>mem := (mem h2)(?r := (mem h2 ?r)\<lparr>index := -1\<rparr>), pq := butlast (pq h2)\<rparr>"
  have len: "length (pq h2) = length (pq h)" and "pq h2 \<noteq> []"
    using P(1) assms(3) by (auto simp: same_entries_def)
  with P(3) have last: "last (pq h2) = ?r" by (simp add: last_conv_nth)
  have d: "distinct (pq h2)" using P(2) by (simp add: pq_ok_def)
  with last \<open>pq h2 \<noteq> []\<close> have fresh: "?r \<notin> set (butlast (pq h2))"
    and set: "set (butlast (pq h2)) = set (pq h2) - {?r}"
    by (metis append_butlast_last_id distinct_append disjoint_iff list.set_intros(1))
      (metis (no_types, lifting) last d \<open>pq h2 \<noteq> []\<close> append_butlast_last_id distinct_append
        Diff_insert_absorb Un_insert_right append_Nil2 disjoint_iff list.set(1,2)
        list.set_intros(1) set_append sup_bot.right_neutral)
  have ne: "pq h2 ! k \<noteq> ?r" if "k < length (pq h2) - Suc 0" for k
    using fresh nth_mem [of k "butlast (pq h2)"] that by (auto simp: nth_butlast)
  show ?thesis
  proof
    show "heap_Pop h = Some (?r, ?h')"
      using assms(3) \<open>pq h2 \<noteq> []\<close> last by (simp add: heap_Pop_def Let_def pq_Len_def pq_Pop_def h2_def)
    show "pq_ok ?h'"
      using P(2) d ne by (simp add: pq_ok_def distinct_butlast nth_butlast)
    show "pq_ordered ?h'"
    proof -
      have "pq_key ?h' k = pq_key h2 k" if "k < ?n" for k
        using that len ne by (simp add: pq_key_def nth_butlast)
      with P(4) len ordered_from_cong [of ?n "pq_key ?h'" "pq_key h2"] show ?thesis by simp
    qed
    show "set (pq ?h') = set (pq h) - {?r}" using P(1) set by (simp add: same_entries_def)
  qed (use P(1) in \<open>auto simp: same_entries_def\<close>)
qed

section \<open>The heap and the map of known entries\<close>

definition wait_inv :: "'a waitHeap \<Rightarrow> ('a \<rightharpoonup> ref) \<Rightarrow> bool" where
  "wait_inv h known \<longleftrightarrow> pq_ok h \<and> pq_ordered h \<and>
     (\<forall>d r. known d = Some r \<longleftrightarrow> r \<in> set (pq h) \<and> data (mem h r) = d)"

text \<open>The abstraction: the waiting items and when each of them is due.\<close>

definition pending :: "'a waitHeap \<Rightarrow> ('a \<rightharpoonup> ref) \<Rightarrow> 'a \<rightharpoonup> time" where
  "pending h known d = map_option (\<lambda>r. readyAt (mem h r)) (known d)"

definition soonest :: "time \<Rightarrow> time option \<Rightarrow> time" where
  "soonest t old = (case old of None \<Rightarrow> t | Some t0 \<Rightarrow> min t0 t)"

lemma wait_inv_parts:
  assumes "wait_inv h known"
  shows wait_inv_ok: "pq_ok h" and wait_inv_ordered: "pq_ordered h"
    and wait_inv_known: "known d = Some r \<longleftrightarrow> r \<in> set (pq h) \<and> data (mem h r) = d"
  using assms by (auto simp: wait_inv_def)

lemma wait_inv_empty: "pq h = [] \<Longrightarrow> wait_inv h Map.empty"
  by (simp add: wait_inv_def pq_ok_def ordered_from_def)

lemma insert_new:
  assumes "wait_inv h known" and "e \<notin> set (pq h)" and "known (data (mem h e)) = None"
    and "insert_entry h known e = (h', known')"
  shows "wait_inv h' known' \<and> set (pq h') = insert e (set (pq h)) \<and>
    (\<forall>r. data (mem h' r) = data (mem h r) \<and>
         (r \<notin> set (pq h) \<longrightarrow> readyAt (mem h' r) = readyAt (mem h r))) \<and>
    pending h' known' = (pending h known)(data (mem h e) \<mapsto> readyAt (mem h e))"
proof -
  note P = heap_Push_correct [OF wait_inv_ok [OF assms(1)] wait_inv_ordered [OF assms(1)] assms(2)]
  have h': "h' = heap_Push h e" "known' = known(data (mem h e) \<mapsto> e)"
    using assms(3,4) by (auto simp: insert_entry_def)
  have "data (mem h r) \<noteq> data (mem h e)" if "r \<in> set (pq h)" for r
    using that assms(3) wait_inv_known [OF assms(1), of "data (mem h e)" r] by auto
  then have "known' d = Some r \<longleftrightarrow> r \<in> set (pq h') \<and> data (mem h' r) = d" for d r
    using P wait_inv_known [OF assms(1), of d r] unfolding h' by auto
  with P show ?thesis by (auto simp: wait_inv_def h' pending_def)
qed

text \<open>Lowering \<open>readyAt\<close> through the map leaves a heap that is wrong at one position only.\<close>

lemma lowered_but_at:
  assumes "pq_ordered h" and "distinct (pq h)" and "i < length (pq h)"
    and "t \<le> readyAt (mem h (pq h ! i))"
  defines "h1 \<equiv> h\<lparr>mem := (mem h)(pq h ! i := (mem h (pq h ! i))\<lparr>readyAt := t\<rparr>)\<rparr>"
  shows "ordered_but_at (pq_key h1) (length (pq h)) i"
proof -
  have key: "pq_key h1 k = (if k = i then t else pq_key h k)" if "k < length (pq h)" for k
    using that assms(2,3) by (auto simp: h1_def pq_key_def nth_eq_iff_index_eq)
  have up: "pq_key h (parent k) \<le> pq_key h k" if "k < length (pq h)" "0 < k" for k
    using assms(1) that by (simp add: ordered_from_def)
  have lt: "parent k < length (pq h)" if "k < length (pq h)" "0 < k" for k
    using parent_less [of k] that by simp
  show ?thesis
    unfolding ordered_but_at_def
  proof (intro conjI allI impI)
    fix k assume "k < length (pq h)" "0 < k" "k \<noteq> i" "parent k \<noteq> i"
    then show "pq_key h1 (parent k) \<le> pq_key h1 k" using up [of k] lt [of k] by (simp add: key)
  next
    fix k assume k: "k < length (pq h)" "0 < k" "parent k = i" "0 < i"
    with parent_less [of k] parent_less [of i] have "k \<noteq> i" "parent i \<noteq> i" by auto
    then show "pq_key h1 (parent i) \<le> pq_key h1 k"
      using up [of k] up [of i] k lt [of i] assms(3) by (simp add: key)
  qed
qed

lemma insert_known:
  assumes inv: "wait_inv h known" and ex: "known (data (mem h e)) = Some x"
    and ins: "insert_entry h known e = (h', known')"
  shows "wait_inv h' known' \<and> set (pq h') = set (pq h) \<and>
    (\<forall>r. data (mem h' r) = data (mem h r) \<and>
         (r \<notin> set (pq h) \<longrightarrow> readyAt (mem h' r) = readyAt (mem h r))) \<and>
    pending h' known' =
      (pending h known)(data (mem h e) \<mapsto> min (readyAt (mem h x)) (readyAt (mem h e)))"
proof (cases "readyAt (mem h e) < readyAt (mem h x)")
  case False
  with ex ins have "h' = h" "known' = known" by (auto simp: insert_entry_def)
  with inv ex False show ?thesis by (auto simp: pending_def)
next
  case True
  from inv ex have x: "x \<in> set (pq h)" "data (mem h x) = data (mem h e)"
    by (auto simp: wait_inv_known)
  then obtain i where i: "i < length (pq h)" "pq h ! i = x" by (auto simp: in_set_conv_nth)
  with inv have idx: "index (mem h x) = int i" by (auto simp: wait_inv_def pq_ok_def)
  define h1 where "h1 = h\<lparr>mem := (mem h)(x := (mem h x)\<lparr>readyAt := readyAt (mem h e)\<rparr>)\<rparr>"
  have h': "h' = heap_Fix pq_Len pq_Less pq_Swap h1 i" "known' = known"
    using True ex ins idx by (auto simp: insert_entry_def h1_def Let_def)
  have ok1: "pq_ok h1" and len1: "pq_Len h1 = length (pq h)"
    using wait_inv_ok [OF inv] by (auto simp: h1_def pq_ok_def pq_Len_def)
  have "ordered_but_at (pq_key h1) (pq_Len h1) i"
    using lowered_but_at [OF wait_inv_ordered [OF inv] _ i(1)] wait_inv_ok [OF inv] i(2) True
    by (simp add: h1_def pq_ok_def pq_Len_def)
  with wait_heap.heap_Fix_ordered [of h1 i] ok1 i(1) len1
  have ord: "heap_ordered (pq_key h') (length (pq h))" by (simp add: h')
  have k: "same_entries h1 h'" "pq_ok h'"
    using wait_heap.heap_Fix_keeps [where P = "same_entries h1", of h1 i] ok1 i(1) len1
    by (auto simp: h' same_entries_Swap)
  then have d: "data (mem h' r) = data (mem h r)"
    and t: "readyAt (mem h' r) = (if r = x then readyAt (mem h e) else readyAt (mem h r))"
    and s: "set (pq h') = set (pq h)" "length (pq h') = length (pq h)" for r
    by (auto simp: same_entries_def h1_def)
  have "wait_inv h' known'"
    using inv k(2) ord s by (simp add: wait_inv_def h'(2) d)
  moreover have "pending h' known' d = ((pending h known)(data (mem h e) \<mapsto>
      min (readyAt (mem h x)) (readyAt (mem h e)))) d" for d
    using True ex wait_inv_known [OF inv, of d x] x(2)
    by (cases "d = data (mem h e)"; cases "known d") (auto simp: pending_def h'(2) t)
  ultimately show ?thesis using d s x(1) by (auto simp: t)
qed

lemma insert_correct:
  assumes "wait_inv h known" and "e \<notin> set (pq h)" and "insert_entry h known e = (h', known')"
  shows "wait_inv h' known'"
    and "set (pq h') \<subseteq> insert e (set (pq h))"
    and "data (mem h' r) = data (mem h r)"
    and "r \<notin> set (pq h) \<Longrightarrow> readyAt (mem h' r) = readyAt (mem h r)"
    and "pending h' known' =
      (pending h known)(data (mem h e) \<mapsto>
         soonest (readyAt (mem h e)) (pending h known (data (mem h e))))"
  using insert_new [OF assms(1,2) _ assms(3)] insert_known [OF assms(1) _ assms(3)]
  by (cases "known (data (mem h e))"; auto simp: soonest_def pending_def)+

section \<open>The loop that adds ready entries\<close>

text \<open>
  The inner loop of both waiting loops: pop while the earliest entry is not after \<open>now\<close>, hand its
  data to the queue (\<open>add\<close>) and forget it. One round is \<open>ready_step\<close>, \<open>None\<close> when the loop ends;
  \<open>Peek\<close> and \<open>Pop\<close> run on a non-empty heap.
\<close>

definition ready_step ::
    "time \<Rightarrow> ('a \<Rightarrow> 'q \<Rightarrow> 'q) \<Rightarrow> 'a waitHeap \<Rightarrow> ('a \<rightharpoonup> ref) \<Rightarrow> 'q \<Rightarrow>
      ('a waitHeap \<times> ('a \<rightharpoonup> ref) \<times> 'q) option" where
  "ready_step now add h known q =
     (case pq_Peek h of
        None \<Rightarrow> None
      | Some r \<Rightarrow>
          if now < readyAt (mem h r) then None
          else case heap_Pop h of
                 None \<Rightarrow> None
               | Some (entry, h') \<Rightarrow>
                   Some (h', known(data (mem h' entry) := None), add (data (mem h' entry)) q))"

lemma ready_step_length:
  "ready_step now add h known q = Some (h', known', q') \<Longrightarrow> length (pq h') < length (pq h)"
  by (auto simp: ready_step_def split: option.splits if_splits dest: heap_Pop_length)

function add_ready ::
    "time \<Rightarrow> ('a \<Rightarrow> 'q \<Rightarrow> 'q) \<Rightarrow> 'a waitHeap \<Rightarrow> ('a \<rightharpoonup> ref) \<Rightarrow> 'q \<Rightarrow> 'a waitHeap \<times> ('a \<rightharpoonup> ref) \<times> 'q" where
  "add_ready now add h known q =
     (case ready_step now add h known q of
        None \<Rightarrow> (h, known, q)
      | Some (h', known', q') \<Rightarrow> add_ready now add h' known' q')"
  by pat_completeness auto
termination
  by (relation "measure (\<lambda>(now, add, h, known, q). length (pq h))") (auto dest: ready_step_length)

declare add_ready.simps [simp del]

lemma pop_known:
  assumes inv: "wait_inv h known" and "pq h \<noteq> []"
  obtains h' where "heap_Pop h = Some (pq h ! 0, h')"
    and "wait_inv h' (known(data (mem h (pq h ! 0)) := None))"
    and "set (pq h') = set (pq h) - {pq h ! 0}"
    and "\<And>r. data (mem h' r) = data (mem h r)"
    and "\<And>r. readyAt (mem h' r) = readyAt (mem h r)"
    and "pending h' (known(data (mem h (pq h ! 0)) := None)) =
           (pending h known)(data (mem h (pq h ! 0)) := None)"
proof -
  from heap_Pop_correct [OF wait_inv_ok [OF inv] wait_inv_ordered [OF inv] assms(2)]
  obtain h' where h': "heap_Pop h = Some (pq h ! 0, h')" "pq_ok h'" "pq_ordered h'"
    "set (pq h') = set (pq h) - {pq h ! 0}" "\<And>r. data (mem h' r) = data (mem h r)"
    "\<And>r. readyAt (mem h' r) = readyAt (mem h r)" by blast
  let ?r = "pq h ! 0"
  let ?known = "known(data (mem h ?r) := None)"
  have root: "known (data (mem h ?r)) = Some ?r"
    using assms(2) by (simp add: wait_inv_known [OF inv])
  have "?known d = Some r \<longleftrightarrow> r \<in> set (pq h') \<and> data (mem h' r) = d" for d r
    using h'(4,5) root wait_inv_known [OF inv, of d r] by auto
  with h' have "wait_inv h' ?known" by (simp add: wait_inv_def)
  moreover have "pending h' ?known = (pending h known)(data (mem h ?r) := None)"
    by (auto simp: pending_def h'(6))
  ultimately show thesis using that h' by blast
qed

definition due :: "time \<Rightarrow> ('a \<rightharpoonup> time) \<Rightarrow> 'a set" where
  "due now p = {d. \<exists>t. p d = Some t \<and> t \<le> now}"

lemma pending_root_least:
  assumes inv: "wait_inv h known" and "pending h known d = Some t"
  shows "pq h \<noteq> []" and "readyAt (mem h (pq h ! 0)) \<le> t"
proof -
  from assms(2) obtain r where "known d = Some r" "t = readyAt (mem h r)"
    by (auto simp: pending_def)
  with inv show "pq h \<noteq> []" and "readyAt (mem h (pq h ! 0)) \<le> t"
    by (auto simp: wait_inv_known intro: pq_root_least wait_inv_ordered)
qed

lemma pending_root:
  assumes "wait_inv h known" and "pq h \<noteq> []"
  shows "pending h known (data (mem h (pq h ! 0))) = Some (readyAt (mem h (pq h ! 0)))"
  using assms(2) wait_inv_known [OF assms(1), of "data (mem h (pq h ! 0))" "pq h ! 0"]
  by (simp add: pending_def)

text \<open>One round: it stops when nothing is due, and else fires an earliest due item.\<close>

lemma ready_step_none:
  assumes "wait_inv h known"
  shows "ready_step now add h known q = None \<longleftrightarrow> due now (pending h known) = {}"
proof (cases "pq h = []")
  case True
  with pending_root_least(1) [OF assms] show ?thesis
    by (auto simp: ready_step_def pq_Peek_def due_def)
next
  case False
  then have "pending h known (data (mem h (pq h ! 0))) = Some (readyAt (mem h (pq h ! 0)))"
    by (rule pending_root [OF assms])
  with False pending_root_least(2) [OF assms] show ?thesis
    by (fastforce simp: ready_step_def pq_Peek_def due_def neq_Nil_conv not_less
        split: list.splits option.splits)
qed

lemma ready_step_fires:
  assumes inv: "wait_inv h known" and step: "ready_step now add h known q = Some (h', known', q')"
    and "pq_Peek h = Some r"
  obtains t where "pending h known (data (mem h r)) = Some t" and "t \<le> now"
    and "q' = add (data (mem h r)) q"
    and "\<And>d' t'. pending h known d' = Some t' \<Longrightarrow> t \<le> t'"
    and "wait_inv h' known'" and "set (pq h') \<subseteq> set (pq h)"
    and "\<And>r. data (mem h' r) = data (mem h r)"
    and "\<And>r. readyAt (mem h' r) = readyAt (mem h r)"
    and "pending h' known' = (pending h known)(data (mem h r) := None)"
proof -
  have ne: "pq h \<noteq> []" and r: "r = pq h ! 0" and t: "readyAt (mem h r) \<le> now"
    using step assms(3) by (auto simp: ready_step_def pq_Peek_def split: list.splits if_splits)
  from pop_known [OF inv ne] obtain g where g: "heap_Pop h = Some (r, g)"
    "wait_inv g (known(data (mem h r) := None))"
    "set (pq g) = set (pq h) - {r}" "\<And>r. data (mem g r) = data (mem h r)"
    "\<And>r. readyAt (mem g r) = readyAt (mem h r)"
    "pending g (known(data (mem h r) := None)) = (pending h known)(data (mem h r) := None)"
    unfolding r by blast
  have eqs: "h' = g" "known' = known(data (mem h r) := None)" "q' = add (data (mem h r)) q"
    using step assms(3) t g(1,4) by (auto simp: ready_step_def split: if_splits)
  have "pending h known (data (mem h r)) = Some (readyAt (mem h r))"
    using pending_root [OF inv ne] r by simp
  then show thesis
    by (rule that) (use g t r eqs pending_root_least(2) [OF inv] in auto)
qed

lemma ready_step_peek:
  "ready_step now add h known q = Some s \<Longrightarrow> \<exists>r. pq_Peek h = Some r"
  by (auto simp: ready_step_def split: option.splits)

text \<open>What one run of the loop does: the items that are due, each once and earliest first.\<close>

lemma add_ready_correct:
  assumes "wait_inv h known" and "add_ready now add h known q = (h', known', q')"
  shows "wait_inv h' known' \<and> set (pq h') \<subseteq> set (pq h) \<and>
    (\<forall>r. data (mem h' r) = data (mem h r) \<and> readyAt (mem h' r) = readyAt (mem h r)) \<and>
    pending h' known' = pending h known |` (- due now (pending h known)) \<and>
    (\<exists>ds. q' = fold add ds q \<and> distinct ds \<and> set ds = due now (pending h known) \<and>
      sorted (map (\<lambda>d. the (pending h known d)) ds))"
  using assms
proof (induction "length (pq h)" arbitrary: h known q rule: less_induct)
  case less
  let ?p = "pending h known"
  show ?case
  proof (cases "ready_step now add h known q")
    case None
    with less.prems have "h' = h" "known' = known" "q' = q" "due now ?p = {}"
      by (auto simp: add_ready.simps [of now add h known q] ready_step_none)
    with less.prems(1) show ?thesis by (auto intro: exI [of _ "[]"])
  next
    case (Some s)
    obtain g k r where s: "ready_step now add h known q = Some (g, k, r)"
      using Some by (cases s) auto
    then have rec: "add_ready now add g k r = (h', known', q')"
      using less.prems(2) by (simp add: add_ready.simps [of now add h known q])
    from ready_step_peek [OF s] ready_step_fires [OF less.prems(1) s]
    obtain d t where g: "?p d = Some t" "t \<le> now"
      "r = add d q" "\<And>d' t'. ?p d' = Some t' \<Longrightarrow> t \<le> t'" "wait_inv g k" "set (pq g) \<subseteq> set (pq h)"
      "\<And>r. data (mem g r) = data (mem h r)" "\<And>r. readyAt (mem g r) = readyAt (mem h r)"
      "pending g k = ?p(d := None)"
      by metis
    note IH = less.hyps [OF ready_step_length [OF s] g(5) rec]
    then obtain ds where ds: "q' = fold add ds (add d q)" "distinct ds"
      "set ds = due now (?p(d := None))" "sorted (map (\<lambda>x. the ((?p(d := None)) x)) ds)"
      using g(3,9) by auto
    have D: "due now ?p = insert d (due now (?p(d := None)))" "d \<notin> due now (?p(d := None))"
      using g(1,2) by (auto simp: due_def split: if_splits)
    have m: "map (\<lambda>x. the ((?p(d := None)) x)) ds = map (\<lambda>x. the (?p x)) ds"
      using D(2) ds(3) by (intro map_cong) auto
    have "sorted (map (\<lambda>x. the (?p x)) (d # ds))"
      using ds(3,4) g(1,4) unfolding m by (fastforce simp: due_def split: if_splits)
    moreover have "pending h' known' = ?p |` (- due now ?p)"
      using IH g(9) D by (auto simp: restrict_map_def)
    ultimately show ?thesis
      using IH g(6,7,8) ds D by (auto intro!: exI [of _ "d # ds"])
  qed
qed

text \<open>A new entry that is not in the heap changes nothing.\<close>

lemma wait_inv_alloc:
  assumes inv: "wait_inv h known" and new: "r \<notin> set (pq h)"
  shows "wait_inv (h\<lparr>mem := (mem h)(r := e)\<rparr>) known"
    and "pending (h\<lparr>mem := (mem h)(r := e)\<rparr>) known = pending h known"
proof -
  let ?h = "h\<lparr>mem := (mem h)(r := e)\<rparr>"
  have at: "pq h ! k \<noteq> r" if "k < length (pq h)" for k
    using new nth_mem [OF that] by auto
  then have "pq_ordered ?h" "pq_ok ?h"
    using inv ordered_from_cong [of "length (pq h)" "pq_key ?h" "pq_key h"]
    by (auto simp: wait_inv_def pq_key_def pq_ok_def)
  moreover have "known d = Some x \<longleftrightarrow> x \<in> set (pq ?h) \<and> data (mem ?h x) = d" for d x
    using wait_inv_known [OF inv, of d x] new by auto
  ultimately show "wait_inv ?h known" by (simp add: wait_inv_def)
  show "pending ?h known = pending h known"
  proof
    fix d show "pending ?h known d = pending h known d"
      using wait_inv_known [OF inv, of d] new by (cases "known d") (auto simp: pending_def)
  qed
qed

end
