(* ===== verification/Waiting_Loop.thy ===== *)
theory Waiting_Loop
  imports Wait_Heap
begin

text \<open>
  The goroutine \<open>waitingLoop\<close> of the delaying queues. \<open>pkg/workqueue/delaying_queue.go\<close> and
  \<open>pkg/workqueue/indexer_delaying_queue.go\<close> contain the same loop around different ways to hand an
  item over (\<open>q.Add\<close> and \<open>q.push\<close>), so the loop is modelled once, with that call (\<open>add\<close>) and
  \<open>ShuttingDown\<close> (\<open>stopping\<close>) as parameters, and each queue instantiates it.

  The loop is a step relation: every statement that other goroutines can observe is one step. A
  step is labelled with what it hands to the queue, so that the history of accepted and fired
  items is visible to the properties.
\<close>

section \<open>State\<close>

text \<open>
  The channels, the ticker, the heap and the local map of the loop. A closed \<open>stopCh\<close> is \<open>True\<close>;
  \<open>heartbeat\<close> says that the ticker has not been stopped; \<open>fresh\<close> is the allocation counter.
\<close>

record 'a waiting =
  stopCh :: bool
  heartbeat :: bool
  waitingForAddCh :: "ref list"
  waitingForQueue :: "'a waitHeap"
  waitingEntryByData :: "'a \<rightharpoonup> ref"
  fresh :: ref

definition chanCap :: nat where
  "chanCap = 1000"

definition maxWait :: duration where
  "maxWait = 10 * second"

definition new_waiting :: "'a waitFor \<Rightarrow> 'a waiting" where
  "new_waiting z =
     \<lparr>stopCh = False, heartbeat = True, waitingForAddCh = [],
      waitingForQueue = \<lparr>mem = (\<lambda>_. z), pq = []\<rparr>, waitingEntryByData = Map.empty, fresh = 0\<rparr>"

text \<open>
  Sending on \<open>waitingForAddCh\<close>. The pointer \<open>&waitFor{data, readyAt}\<close> is unknown to every other
  goroutine before the send, so that the send is where it is allocated.
\<close>

definition can_send :: "'a waiting \<Rightarrow> bool" where
  "can_send w \<longleftrightarrow> length (waitingForAddCh w) < chanCap"

definition send :: "'a \<Rightarrow> time \<Rightarrow> 'a waiting \<Rightarrow> 'a waiting" where
  "send d t w =
     (let h = waitingForQueue w;
          r = fresh w
      in w\<lparr>waitingForQueue := h\<lparr>mem := (mem h)(r := \<lparr>data = d, readyAt = t, index = 0\<rparr>)\<rparr>,
           waitingForAddCh := waitingForAddCh w @ [r], fresh := Suc r\<rparr>)"

section \<open>The loop\<close>

datatype 'a event = Accepted 'a time | Fired 'a time

datatype loop_pc =
    LoopTop
  | LoopReady time
  | LoopSelect "time option"
  | LoopDrain
  | LoopExited

text \<open>What the loop does with an entry received from the channel.\<close>

definition take_entry ::
    "time \<Rightarrow> ('a \<Rightarrow> 'q \<Rightarrow> 'q) \<Rightarrow> ref \<Rightarrow> 'a waiting \<Rightarrow> 'q \<Rightarrow> 'a waiting \<times> 'q \<times> 'a event list" where
  "take_entry now add r w q =
     (let e = mem (waitingForQueue w) r
      in if now < readyAt e
         then case insert_entry (waitingForQueue w) (waitingEntryByData w) r of
                (h, known) \<Rightarrow> (w\<lparr>waitingForQueue := h, waitingEntryByData := known\<rparr>, q, [])
         else (w, add (data e) q, [Fired (data e) now]))"

text \<open>
  The timer for the earliest entry: armed at clock \<open>c\<close> for the duration \<open>readyAt.Sub(now)\<close>, it
  fires at the deadline; without an entry the channel is \<open>never\<close>.
\<close>

definition nextReadyAt :: "time \<Rightarrow> time \<Rightarrow> 'a waitHeap \<Rightarrow> time option" where
  "nextReadyAt c now h = map_option (\<lambda>r. c + time_Sub (readyAt (mem h r)) now) (pq_Peek h)"

inductive loop_step ::
    "(time \<Rightarrow> 'a \<Rightarrow> 'q \<Rightarrow> 'q) \<Rightarrow> ('q \<Rightarrow> bool) \<Rightarrow> time \<Rightarrow>
     'a waiting \<times> 'q \<times> loop_pc \<Rightarrow> 'a event list \<Rightarrow> 'a waiting \<times> 'q \<times> loop_pc \<Rightarrow> bool"
  for add stopping where
  top_exit: "stopping q \<Longrightarrow>
    loop_step add stopping c (w, q, LoopTop) [] (w, q, LoopExited)"
| top_now: "\<not> stopping q \<Longrightarrow>
    loop_step add stopping c (w, q, LoopTop) [] (w, q, LoopReady c)"
| ready_pop: "ready_step now (add c) (waitingForQueue w) (waitingEntryByData w) q = Some (h, known, q') \<Longrightarrow>
    pq_Peek (waitingForQueue w) = Some r \<Longrightarrow>
    loop_step add stopping c (w, q, LoopReady now) [Fired (data (mem (waitingForQueue w) r)) now]
      (w\<lparr>waitingForQueue := h, waitingEntryByData := known\<rparr>, q', LoopReady now)"
| ready_end: "ready_step now (add c) (waitingForQueue w) (waitingEntryByData w) q = None \<Longrightarrow>
    loop_step add stopping c (w, q, LoopReady now) []
      (w, q, LoopSelect (nextReadyAt c now (waitingForQueue w)))"
| select_stop: "stopCh w \<Longrightarrow>
    loop_step add stopping c (w, q, LoopSelect dl) [] (w, q, LoopExited)"
| select_heartbeat: "heartbeat w \<Longrightarrow>
    loop_step add stopping c (w, q, LoopSelect dl) [] (w, q, LoopTop)"
| select_timer: "t \<le> c \<Longrightarrow>
    loop_step add stopping c (w, q, LoopSelect (Some t)) [] (w, q, LoopTop)"
| select_recv: "waitingForAddCh w = r # rs \<Longrightarrow>
    take_entry c (add c) r (w\<lparr>waitingForAddCh := rs\<rparr>) q = (w', q', ev) \<Longrightarrow>
    loop_step add stopping c (w, q, LoopSelect dl) ev (w', q', LoopDrain)"
| drain_recv: "waitingForAddCh w = r # rs \<Longrightarrow>
    take_entry c (add c) r (w\<lparr>waitingForAddCh := rs\<rparr>) q = (w', q', ev) \<Longrightarrow>
    loop_step add stopping c (w, q, LoopDrain) ev (w', q', LoopDrain)"
| drain_default: "waitingForAddCh w = [] \<Longrightarrow>
    loop_step add stopping c (w, q, LoopDrain) [] (w, q, LoopTop)"

section \<open>Invariant of the waiting entries\<close>

definition waiting_inv :: "'a waiting \<Rightarrow> bool" where
  "waiting_inv w \<longleftrightarrow> wait_inv (waitingForQueue w) (waitingEntryByData w) \<and>
     distinct (waitingForAddCh w) \<and> set (waitingForAddCh w) \<inter> set (pq (waitingForQueue w)) = {} \<and>
     (\<forall>r \<in> set (waitingForAddCh w) \<union> set (pq (waitingForQueue w)). r < fresh w)"

abbreviation due_at :: "'a waiting \<Rightarrow> 'a \<rightharpoonup> time" where
  "due_at w \<equiv> pending (waitingForQueue w) (waitingEntryByData w)"

definition in_chan :: "'a waiting \<Rightarrow> ('a \<times> time) set" where
  "in_chan w = (\<lambda>r. (data (mem (waitingForQueue w) r), readyAt (mem (waitingForQueue w) r))) `
                 set (waitingForAddCh w)"

text \<open>The history explains what waits, and what has been fired.\<close>

definition explained :: "'a event list \<Rightarrow> 'a waiting \<Rightarrow> bool" where
  "explained tr w \<longleftrightarrow>
     (\<forall>d t. due_at w d = Some t \<longrightarrow> Accepted d t \<in> set tr) \<and>
     (\<forall>(d, t) \<in> in_chan w. Accepted d t \<in> set tr)"

definition never_early :: "'a event list \<Rightarrow> bool" where
  "never_early tr \<longleftrightarrow>
     (\<forall>xs d now ys. tr = xs @ Fired d now # ys \<longrightarrow> (\<exists>t\<le>now. Accepted d t \<in> set xs))"

definition still_waiting :: "'a waiting \<Rightarrow> 'a \<Rightarrow> time \<Rightarrow> bool" where
  "still_waiting w d t \<longleftrightarrow> (d, t) \<in> in_chan w \<or> (\<exists>t'\<le>t. due_at w d = Some t')"

definition nothing_lost :: "'a event list \<Rightarrow> ('a \<Rightarrow> time \<Rightarrow> bool) \<Rightarrow> bool" where
  "nothing_lost tr W \<longleftrightarrow>
     (\<forall>xs d t ys. tr = xs @ Accepted d t # ys \<longrightarrow> (\<exists>now. Fired d now \<in> set ys) \<or> W d t)"

definition history_inv :: "'a event list \<Rightarrow> 'a waiting \<Rightarrow> bool" where
  [inv_defs]: "history_inv tr w \<longleftrightarrow>
     waiting_inv w \<and> explained tr w \<and> never_early tr \<and> nothing_lost tr (still_waiting w)"

section \<open>Histories\<close>

lemma snoc_split:
  "tr @ [e] = xs @ x # ys \<longleftrightarrow>
     (ys = [] \<and> xs = tr \<and> x = e) \<or> (\<exists>zs. ys = zs @ [e] \<and> tr = xs @ x # zs)"
  by (cases ys rule: rev_cases) auto

lemma never_early_snoc:
  "never_early (tr @ [Accepted d t]) \<longleftrightarrow> never_early tr"
  "never_early (tr @ [Fired d now]) \<longleftrightarrow> never_early tr \<and> (\<exists>t\<le>now. Accepted d t \<in> set tr)"
  unfolding never_early_def snoc_split by (blast, blast)

lemma nothing_lost_mono:
  "nothing_lost tr W \<Longrightarrow> (\<And>d t. W d t \<Longrightarrow> W' d t) \<Longrightarrow> nothing_lost tr W'"
  unfolding nothing_lost_def by blast

lemma nothing_lost_snoc:
  assumes "nothing_lost tr W" and "\<And>d t. W d t \<Longrightarrow> W' d t \<or> (\<exists>now. e = Fired d now)"
    and "\<And>d t. e = Accepted d t \<Longrightarrow> W' d t"
  shows "nothing_lost (tr @ [e]) W'"
  unfolding nothing_lost_def
proof (intro allI impI)
  fix xs d t ys assume "tr @ [e] = xs @ Accepted d t # ys"
  then consider "e = Accepted d t" | zs where "ys = zs @ [e]" "tr = xs @ Accepted d t # zs"
    by (auto simp: snoc_split)
  then show "(\<exists>now. Fired d now \<in> set ys) \<or> W' d t"
  proof cases
    case 2
    with assms(1) have "(\<exists>now. Fired d now \<in> set zs) \<or> W d t" unfolding nothing_lost_def by blast
    with assms(2) 2(1) show ?thesis by fastforce
  qed (simp add: assms(3))
qed

section \<open>Steps keep the invariant\<close>

lemma waiting_inv_new [simp]: "waiting_inv (new_waiting z)" "in_chan (new_waiting z) = {}"
  "due_at (new_waiting z) = Map.empty"
  by (auto simp: waiting_inv_def new_waiting_def wait_inv_empty in_chan_def pending_def)

lemma waiting_inv_flags [simp]:
  "waiting_inv (w\<lparr>stopCh := b\<rparr>) = waiting_inv w" "waiting_inv (w\<lparr>heartbeat := b\<rparr>) = waiting_inv w"
  "in_chan (w\<lparr>stopCh := b\<rparr>) = in_chan w" "in_chan (w\<lparr>heartbeat := b\<rparr>) = in_chan w"
  by (simp_all add: waiting_inv_def in_chan_def)

lemma history_inv_flags [simp]:
  "history_inv tr (w\<lparr>stopCh := b\<rparr>) = history_inv tr w"
  "history_inv tr (w\<lparr>heartbeat := b\<rparr>) = history_inv tr w"
  by (simp_all add: history_inv_def explained_def still_waiting_def [abs_def])

lemma history_inv_new: "history_inv [] (new_waiting z)"
  by (simp add: history_inv_def explained_def never_early_def nothing_lost_def)

lemma send_effect:
  assumes "waiting_inv w"
  shows "waiting_inv (send d t w)" and "in_chan (send d t w) = insert (d, t) (in_chan w)"
    and "due_at (send d t w) = due_at w"
proof -
  from assms have inv: "wait_inv (waitingForQueue w) (waitingEntryByData w)"
    and chan: "fresh w \<notin> set (waitingForAddCh w)" and heap: "fresh w \<notin> set (pq (waitingForQueue w))"
    by (auto simp: waiting_inv_def)
  note A = wait_inv_alloc [OF inv heap]
  show "waiting_inv (send d t w)"
    using assms chan heap by (auto simp: waiting_inv_def send_def Let_def A(1) less_Suc_eq)
  show "in_chan (send d t w) = insert (d, t) (in_chan w)"
    unfolding in_chan_def
    by (simp add: send_def Let_def, rule arg_cong [where f = "insert _"], rule image_cong)
      (use chan in auto)
  show "due_at (send d t w) = due_at w" by (simp add: send_def Let_def A(2))
qed

lemma history_inv_send:
  assumes "history_inv tr w"
  shows "history_inv (tr @ [Accepted d t]) (send d t w)"
proof -
  from assms have w: "waiting_inv w" and n: "nothing_lost tr (still_waiting w)"
    by (auto simp: history_inv_def)
  note S = send_effect [OF w]
  have "nothing_lost (tr @ [Accepted d t]) (still_waiting (send d t w))"
    by (rule nothing_lost_snoc [OF n]) (auto simp: still_waiting_def S)
  with assms S show ?thesis by (auto simp: history_inv_def explained_def never_early_snoc)
qed

text \<open>Receiving the first entry \<open>(d, t)\<close> of the channel: it is put into the heap, or fired.\<close>

lemma take_entry_effect:
  assumes w: "waiting_inv w" and ch: "waitingForAddCh w = r # rs"
    and take: "take_entry now add r (w\<lparr>waitingForAddCh := rs\<rparr>) q = (w', q', ev)"
  obtains d t where "waiting_inv w'" and "in_chan w = insert (d, t) (in_chan w')"
    and "fresh w' = fresh w" and "stopCh w' = stopCh w" and "heartbeat w' = heartbeat w"
    and "waitingForAddCh w' = rs"
    and "now < t \<Longrightarrow> ev = [] \<and> q' = q \<and> due_at w' = (due_at w)(d \<mapsto> soonest t (due_at w d))"
    and "t \<le> now \<Longrightarrow> ev = [Fired d now] \<and> q' = add d q \<and> due_at w' = due_at w"
proof -
  let ?h = "waitingForQueue w" and ?k = "waitingEntryByData w"
  let ?d = "data (mem ?h r)" and ?t = "readyAt (mem ?h r)"
  from w ch have inv: "wait_inv ?h ?k" and r: "r \<notin> set (pq ?h)" "r \<notin> set rs" "distinct rs"
    "set rs \<inter> set (pq ?h) = {}" "\<forall>x \<in> insert r (set rs \<union> set (pq ?h)). x < fresh w"
    by (auto simp: waiting_inv_def)
  show thesis
  proof (cases "now < ?t")
    case False
    with take have e: "w' = w\<lparr>waitingForAddCh := rs\<rparr>" "q' = add ?d q" "ev = [Fired ?d now]"
      by (auto simp: take_entry_def Let_def)
    show thesis
      by (rule that [of ?d ?t]) (use False inv r ch e in \<open>auto simp: waiting_inv_def in_chan_def\<close>)
  next
    case True
    obtain h known where ins: "insert_entry ?h ?k r = (h, known)" by fastforce
    from take True ins have e: "q' = q" "ev = []"
      "w' = w\<lparr>waitingForAddCh := rs, waitingForQueue := h, waitingEntryByData := known\<rparr>"
      by (auto simp: take_entry_def Let_def)
    note I = insert_correct [OF inv r(1) ins]
    have "readyAt (mem h x) = readyAt (mem ?h x)" if "x \<in> set rs" for x
      using that r(4) I(4) by blast
    then have c: "in_chan w = insert (?d, ?t) (in_chan w')"
      using ch e I(3) by (auto simp: in_chan_def image_iff)
    have "waiting_inv w'"
      using r I(1,2) by (auto simp: waiting_inv_def e)
    then show thesis
      by (rule that [OF _ c]) (use True e I(5) in auto)
  qed
qed

lemma history_inv_take:
  assumes hist: "history_inv tr w" and ch: "waitingForAddCh w = r # rs"
    and take: "take_entry now add r (w\<lparr>waitingForAddCh := rs\<rparr>) q = (w', q', ev)"
  shows "history_inv (tr @ ev) w'"
proof -
  from hist have w: "waiting_inv w" and ex: "explained tr w" and ne: "never_early tr"
    and nl: "nothing_lost tr (still_waiting w)" by (auto simp: history_inv_def)
  from take_entry_effect [OF w ch take] obtain d t where e: "waiting_inv w'"
    "in_chan w = insert (d, t) (in_chan w')"
    "now < t \<Longrightarrow> ev = [] \<and> q' = q \<and> due_at w' = (due_at w)(d \<mapsto> soonest t (due_at w d))"
    "t \<le> now \<Longrightarrow> ev = [Fired d now] \<and> q' = add d q \<and> due_at w' = due_at w" by metis
  have acc: "Accepted d t \<in> set tr" using ex e(2) by (auto simp: explained_def)
  show ?thesis
  proof (cases "now < t")
    case True
    note e' = e(1,2) e(3) [OF True]
    have "nothing_lost tr (still_waiting w')"
      by (rule nothing_lost_mono [OF nl])
        (use e' in \<open>fastforce simp: still_waiting_def soonest_def split: option.splits\<close>)
    moreover have "explained tr w'"
      using ex acc e' by (auto simp: explained_def soonest_def min_def split: option.splits)
    ultimately show ?thesis using e' ne by (simp add: history_inv_def)
  next
    case False
    then have e': "ev = [Fired d now]" "due_at w' = due_at w" "t \<le> now" using e(4) by auto
    have "nothing_lost (tr @ [Fired d now]) (still_waiting w')"
      by (rule nothing_lost_snoc [OF nl]) (use e(2) e' in \<open>auto simp: still_waiting_def\<close>)
    moreover have "explained (tr @ ev) w'"
      using ex e(2) e' by (auto simp: explained_def)
    ultimately show ?thesis
      using e(1) e' ne acc by (auto simp: history_inv_def never_early_snoc)
  qed
qed

lemma history_inv_pop:
  assumes hist: "history_inv tr w" and peek: "pq_Peek (waitingForQueue w) = Some r"
    and step: "ready_step now add (waitingForQueue w) (waitingEntryByData w) q = Some (h, known, q')"
  shows "history_inv (tr @ [Fired (data (mem (waitingForQueue w) r)) now])
           (w\<lparr>waitingForQueue := h, waitingEntryByData := known\<rparr>)"
proof -
  let ?w' = "w\<lparr>waitingForQueue := h, waitingEntryByData := known\<rparr>"
  from hist have w: "waiting_inv w" and ex: "explained tr w" and ne: "never_early tr"
    and nl: "nothing_lost tr (still_waiting w)" by (auto simp: history_inv_def)
  from w have inv: "wait_inv (waitingForQueue w) (waitingEntryByData w)"
    by (simp add: waiting_inv_def)
  from ready_step_fires [OF inv step peek] obtain t where e: "t \<le> now"
    "due_at w (data (mem (waitingForQueue w) r)) = Some t" "wait_inv h known"
    "set (pq h) \<subseteq> set (pq (waitingForQueue w))"
    "\<And>r. data (mem h r) = data (mem (waitingForQueue w) r)"
    "\<And>r. readyAt (mem h r) = readyAt (mem (waitingForQueue w) r)"
    "pending h known = (due_at w)(data (mem (waitingForQueue w) r) := None)" by metis
  have c: "in_chan ?w' = in_chan w" by (simp add: in_chan_def e(5,6))
  have "waiting_inv ?w'" using w e(3,4) by (auto simp: waiting_inv_def)
  moreover have "nothing_lost (tr @ [Fired (data (mem (waitingForQueue w) r)) now]) (still_waiting ?w')"
    by (rule nothing_lost_snoc [OF nl]) (use c e(7) in \<open>auto simp: still_waiting_def\<close>)
  ultimately show ?thesis
    using ne ex e c by (auto simp: history_inv_def explained_def never_early_snoc)
qed

lemma history_inv_loop_step:
  assumes "loop_step add stopping c (w, q, pc) ev (w', q', pc')" and "history_inv tr w"
  shows "history_inv (tr @ ev) w'"
  using assms
  by (cases rule: loop_step.cases) (auto intro: history_inv_take history_inv_pop)

section \<open>The loop makes progress\<close>

text \<open>Several steps of the loop at one clock reading.\<close>

inductive loop_run ::
    "(time \<Rightarrow> 'a \<Rightarrow> 'q \<Rightarrow> 'q) \<Rightarrow> ('q \<Rightarrow> bool) \<Rightarrow> time \<Rightarrow>
     'a waiting \<times> 'q \<times> loop_pc \<Rightarrow> 'a event list \<Rightarrow> 'a waiting \<times> 'q \<times> loop_pc \<Rightarrow> bool"
  for add stopping c where
  run_refl [intro!]: "loop_run add stopping c s [] s"
| run_step: "loop_step add stopping c s ev s' \<Longrightarrow> loop_run add stopping c s' evs s'' \<Longrightarrow>
    loop_run add stopping c s (ev @ evs) s''"

lemma loop_run_trans:
  assumes "loop_run add stopping c s ev s'" and "loop_run add stopping c s' ev' s''"
  shows "loop_run add stopping c s (ev @ ev') s''"
  using assms by (induction) (auto intro: run_step)

lemma loop_run_history:
  assumes "loop_run add stopping c s ev s'" and "history_inv tr (fst s)"
  shows "history_inv (tr @ ev) (fst s')"
  using assms
proof (induction arbitrary: tr)
  case (run_step s ev s' evs s'')
  then have "history_inv (tr @ ev) (fst s')"
    by (metis history_inv_loop_step prod.collapse)
  with run_step.IH show ?case by force
qed simp

lemma drain_run:
  assumes "\<And>d q. stopping (add c d q) = stopping q" and "waiting_inv w"
  shows "\<exists>w' q' ev. loop_run add stopping c (w, q, LoopDrain) ev (w', q', LoopTop) \<and>
    waitingForAddCh w' = [] \<and> waiting_inv w' \<and> stopping q' = stopping q \<and> heartbeat w' = heartbeat w"
  using assms(2)
proof (induction "waitingForAddCh w" arbitrary: w q)
  case Nil
  then show ?case
    using run_step [OF drain_default run_refl, of w add stopping c q] by (intro exI) auto
next
  case (Cons r rs)
  obtain w1 q1 ev where take: "take_entry c (add c) r (w\<lparr>waitingForAddCh := rs\<rparr>) q = (w1, q1, ev)"
    by (metis prod_cases3)
  from take_entry_effect [OF Cons.prems Cons.hyps(2) [symmetric] take]
  have w1: "waiting_inv w1" "waitingForAddCh w1 = rs" "heartbeat w1 = heartbeat w" by metis+
  have "stopping q1 = stopping q"
    using take assms(1) by (auto simp: take_entry_def Let_def split: if_splits prod.splits)
  with Cons.hyps(1) [of w1 q1] w1 obtain w' q' ev' where
    "loop_run add stopping c (w1, q1, LoopDrain) ev' (w', q', LoopTop)" "waitingForAddCh w' = []"
    "waiting_inv w'" "stopping q' = stopping q" "heartbeat w' = heartbeat w" by auto
  with run_step [OF drain_recv [where add = add, OF Cons.hyps(2) [symmetric] take]] show ?case by blast
qed

lemma ready_run:
  assumes "\<And>d q. stopping (add c d q) = stopping q" and "waiting_inv w"
  shows "\<exists>w' q' ev dl. loop_run add stopping c (w, q, LoopReady now) ev (w', q', LoopSelect dl) \<and>
    waitingForAddCh w' = waitingForAddCh w \<and> waiting_inv w' \<and> stopping q' = stopping q \<and>
    heartbeat w' = heartbeat w \<and> due now (due_at w') = {}"
  using assms(2)
proof (induction "length (pq (waitingForQueue w))" arbitrary: w q rule: less_induct)
  case less
  let ?h = "waitingForQueue w" and ?k = "waitingEntryByData w"
  from less.prems have inv: "wait_inv ?h ?k" by (simp add: waiting_inv_def)
  show ?case
  proof (cases "ready_step now (add c) ?h ?k q")
    case None
    with ready_step_none [OF inv, of now "add c" q] less.prems run_step [OF ready_end run_refl, of now add c w q]
    show ?thesis by (intro exI conjI) auto
  next
    case (Some s)
    then obtain h known q1 where s: "ready_step now (add c) ?h ?k q = Some (h, known, q1)"
      by (cases s) auto
    from ready_step_peek [OF s] obtain r where r: "pq_Peek ?h = Some r" by blast
    from ready_step_fires [OF inv s r] have g: "wait_inv h known" "set (pq h) \<subseteq> set (pq ?h)"
      "q1 = add c (data (mem ?h r)) q" by metis+
    let ?w = "w\<lparr>waitingForQueue := h, waitingEntryByData := known\<rparr>"
    have "waiting_inv ?w" using less.prems g by (auto simp: waiting_inv_def)
    with less.hyps [of ?w q1] ready_step_length [OF s] g(3) assms(1)
    obtain w' q' ev dl where
      "loop_run add stopping c (?w, q1, LoopReady now) ev (w', q', LoopSelect dl)"
      "waitingForAddCh w' = waitingForAddCh w" "waiting_inv w'" "stopping q' = stopping q"
      "heartbeat w' = heartbeat w" "due now (due_at w') = {}" by auto
    with run_step [OF ready_pop [where add = add, OF s r]] show ?thesis by blast
  qed
qed

text \<open>A full turn from the top, and one that first empties the channel.\<close>

lemma top_run:
  assumes "\<And>d q. stopping (add c d q) = stopping q" and "waiting_inv w" and "\<not> stopping q"
  shows "\<exists>w' q' ev dl. loop_run add stopping c (w, q, LoopTop) ev (w', q', LoopSelect dl) \<and>
    waitingForAddCh w' = waitingForAddCh w \<and> waiting_inv w' \<and> \<not> stopping q' \<and>
    heartbeat w' = heartbeat w \<and> due c (due_at w') = {}"
proof -
  from ready_run [where stopping = stopping and add = add and c = c, OF assms(1,2), of q c] assms(3) obtain w' q' ev dl where
    r: "loop_run add stopping c (w, q, LoopReady c) ev (w', q', LoopSelect dl)"
      "waitingForAddCh w' = waitingForAddCh w" "waiting_inv w'" "\<not> stopping q'"
      "heartbeat w' = heartbeat w" "due c (due_at w') = {}" by auto
  with run_step [OF top_now [where stopping = stopping and q = q, OF assms(3)] r(1)] show ?thesis by blast
qed

lemma drained_run:
  assumes add: "\<And>d q. stopping (add c d q) = stopping q" and "waiting_inv w" and "\<not> stopping q"
  shows "\<exists>w' q' ev dl. loop_run add stopping c (w, q, LoopDrain) ev (w', q', LoopSelect dl) \<and>
    waitingForAddCh w' = [] \<and> due c (due_at w') = {}"
proof -
  from drain_run [where stopping = stopping and add = add and c = c, OF add assms(2), of q] obtain w1 q1 ev1 where
    d: "loop_run add stopping c (w, q, LoopDrain) ev1 (w1, q1, LoopTop)" "waitingForAddCh w1 = []"
      "waiting_inv w1" "\<not> stopping q1" using assms(3) by auto
  from top_run [where stopping = stopping and add = add and c = c, OF add d(3,4)] obtain w2 q2 ev2 dl where
    "loop_run add stopping c (w1, q1, LoopTop) ev2 (w2, q2, LoopSelect dl)"
    "waitingForAddCh w2 = []" "due c (due_at w2) = {}" using d(2) by auto
  with loop_run_trans [OF d(1)] show ?thesis by blast
qed

lemma select_run:
  assumes add: "\<And>d q. stopping (add c d q) = stopping q" and "waiting_inv w" and "\<not> stopping q"
    and "heartbeat w"
  shows "\<exists>w' q' ev dl'. loop_run add stopping c (w, q, LoopSelect dl) ev (w', q', LoopSelect dl') \<and>
    waitingForAddCh w' = [] \<and> due c (due_at w') = {}"
proof (cases "waitingForAddCh w")
  case Nil
  from top_run [where stopping = stopping and add = add and c = c, OF add assms(2,3)] obtain w2 q2 ev2 dl' where
    "loop_run add stopping c (w, q, LoopTop) ev2 (w2, q2, LoopSelect dl')"
    "waitingForAddCh w2 = []" "due c (due_at w2) = {}" using Nil by auto
  with run_step [OF select_heartbeat [where add = add and stopping = stopping and q = q and dl = dl, OF assms(4)]]
  show ?thesis by blast
next
  case (Cons r rs)
  obtain w1 q1 ev where take: "take_entry c (add c) r (w\<lparr>waitingForAddCh := rs\<rparr>) q = (w1, q1, ev)"
    by (metis prod_cases3)
  have "\<not> stopping q1"
    using take add assms(3) by (auto simp: take_entry_def Let_def split: if_splits prod.splits)
  moreover have "waiting_inv w1" using take_entry_effect [OF assms(2) Cons take] by metis
  ultimately obtain w2 q2 ev2 dl' where
    "loop_run add stopping c (w1, q1, LoopDrain) ev2 (w2, q2, LoopSelect dl')"
    "waitingForAddCh w2 = []" "due c (due_at w2) = {}"
    using drained_run [where stopping = stopping and add = add and c = c, OF add] by blast
  with run_step [OF select_recv [where add = add, OF Cons take]] show ?thesis by blast
qed

lemma loop_catches_up:
  assumes add: "\<And>d q. stopping (add c d q) = stopping q" and w: "waiting_inv w"
    and ns: "\<not> stopping q" and hb: "heartbeat w" and pc: "pc \<noteq> LoopExited"
  shows "\<exists>w' q' ev dl. loop_run add stopping c (w, q, pc) ev (w', q', LoopSelect dl) \<and>
    waitingForAddCh w' = [] \<and> due c (due_at w') = {}"
proof (cases pc)
  case LoopTop
  from top_run [where stopping = stopping and add = add and c = c, OF add w ns] obtain w1 q1 ev dl where
    t: "loop_run add stopping c (w, q, LoopTop) ev (w1, q1, LoopSelect dl)" "waiting_inv w1"
      "\<not> stopping q1" "heartbeat w1" using hb by auto
  from select_run [where stopping = stopping and add = add and c = c, OF add t(2-4)] loop_run_trans [OF t(1)] LoopTop
  show ?thesis by blast
next
  case (LoopReady now)
  from ready_run [where stopping = stopping and add = add and c = c, OF add w, of q now] obtain w1 q1 ev dl where
    t: "loop_run add stopping c (w, q, LoopReady now) ev (w1, q1, LoopSelect dl)" "waiting_inv w1"
      "\<not> stopping q1" "heartbeat w1" using hb ns by auto
  from select_run [where stopping = stopping and add = add and c = c, OF add t(2-4)] loop_run_trans [OF t(1)] LoopReady
  show ?thesis by blast
next
  case (LoopSelect dl)
  with select_run [where stopping = stopping and add = add and c = c, OF add w ns hb] show ?thesis by blast
next
  case LoopDrain
  with drained_run [where stopping = stopping and add = add and c = c, OF add w ns] show ?thesis by blast
qed (use pc in simp)

lemma caught_up_fired:
  assumes "history_inv (xs @ Accepted d t # ys) w" and "t \<le> c"
    and "waitingForAddCh w = []" and "due c (due_at w) = {}"
  shows "\<exists>now. Fired d now \<in> set ys"
proof -
  from assms(1) have "(\<exists>now. Fired d now \<in> set ys) \<or> still_waiting w d t"
    unfolding history_inv_def nothing_lost_def by blast
  with assms(2-4) show ?thesis by (fastforce simp: still_waiting_def in_chan_def due_def)
qed

section \<open>What a step leaves alone\<close>

lemma take_entry_frame:
  assumes "take_entry c add r w q = (w', q', ev)"
  shows "stopCh w' = stopCh w \<and> heartbeat w' = heartbeat w \<and> (q' = q \<or> (\<exists>d. q' = add d q)) \<and>
    (\<forall>d now. Fired d now \<in> set ev \<longrightarrow> now = c)"
  using assms by (auto simp: take_entry_def Let_def split: if_splits prod.splits)

lemma ready_step_frame:
  "ready_step now add h known q = Some (h', known', q') \<Longrightarrow> \<exists>d. q' = add d q"
  by (auto simp: ready_step_def split: option.splits if_splits)

lemma loop_step_frame:
  assumes "loop_step add stopping c (w, q, pc) ev (w', q', pc')"
  shows "stopCh w' = stopCh w \<and> heartbeat w' = heartbeat w \<and> (q' = q \<or> (\<exists>d. q' = add c d q)) \<and>
    (pc' = LoopExited \<longrightarrow> stopping q \<or> stopCh w)"
  using assms
  by (cases rule: loop_step.cases) (auto dest: take_entry_frame ready_step_frame)

lemma loop_step_clock:
  assumes "loop_step add stopping c (w, q, pc) ev (w', q', pc')"
    and "\<And>now. pc = LoopReady now \<Longrightarrow> now \<le> c"
  shows "(\<forall>now. pc' = LoopReady now \<longrightarrow> now \<le> c) \<and> (\<forall>d now. Fired d now \<in> set ev \<longrightarrow> now \<le> c)"
  using assms
  by (cases rule: loop_step.cases) (auto dest: take_entry_frame)

lemma loop_step_timer:
  assumes "loop_step add stopping c (w, q, pc) ev (w', q', LoopSelect dl)" and "waiting_inv w"
  shows "dl = None \<longleftrightarrow> due_at w' = Map.empty"
proof -
  let ?h = "waitingForQueue w" and ?k = "waitingEntryByData w"
  from assms(1) obtain now where w': "w' = w" "dl = nextReadyAt c now ?h"
    by (cases rule: loop_step.cases) auto
  from assms(2) have inv: "wait_inv ?h ?k" by (simp add: waiting_inv_def)
  have "pq ?h = [] \<longleftrightarrow> due_at w = Map.empty"
  proof (cases "pq ?h")
    case Nil
    have "due_at w d = None" for d
      using pending_root_least(1) [OF inv, of d] Nil by (cases "due_at w d") auto
    with Nil show ?thesis by auto
  next
    case (Cons r rs)
    then show ?thesis using pending_root [OF inv] by (metis list.distinct(1) option.distinct(1))
  qed
  then show ?thesis by (cases "pq ?h") (auto simp: w' nextReadyAt_def pq_Peek_def)
qed

text \<open>What the loop fires arrives: for a property \<open>P\<close> that \<open>add\<close> establishes and keeps.\<close>

lemma loop_step_delivers:
  assumes "loop_step add stopping c (w, q, pc) ev (w', q', pc')" and "waiting_inv w"
    and "Fired d now \<in> set ev"
  shows "q' = add c d q"
  using assms(1)
proof cases
  case (ready_pop n h known r)
  with assms(2) ready_step_fires [of "waitingForQueue w" "waitingEntryByData w" n "add c" q h known q' r]
  show ?thesis using assms(3) by (auto simp: waiting_inv_def)
qed (use assms(3) in \<open>auto simp: take_entry_def Let_def split: if_splits prod.splits\<close>)

lemma loop_run_delivers:
  assumes "loop_run add stopping c s ev s'" and "history_inv tr (fst s)"
    and "\<not> stopping (fst (snd s))"
    and est: "\<And>d q. \<not> stopping q \<Longrightarrow> P d (add c d q)"
    and keep: "\<And>d e q. P d q \<Longrightarrow> P d (add c e q)"
    and stop: "\<And>d q. stopping (add c d q) = stopping q"
  shows "(P d (fst (snd s)) \<longrightarrow> P d (fst (snd s'))) \<and> (Fired d now \<in> set ev \<longrightarrow> P d (fst (snd s')))"
  using assms(1-3)
proof (induction arbitrary: tr)
  case (run_step s ev s' evs s'')
  obtain w q pc w' q' pc' where s: "s = (w, q, pc)" "s' = (w', q', pc')" by (metis prod_cases3)
  note step = run_step.hyps(1) [unfolded s]
  have inv: "waiting_inv w" using run_step.prems(1) by (simp add: s history_inv_def)
  have "q' = q \<or> (\<exists>d. q' = add c d q)" using loop_step_frame [OF step] by blast
  then have ns: "\<not> stopping q'" and "P d q \<longrightarrow> P d q'"
    using run_step.prems(2) stop keep by (auto simp: s)
  moreover have "Fired d now \<in> set ev \<longrightarrow> P d q'"
    using loop_step_delivers [OF step inv] est run_step.prems(2) by (auto simp: s)
  moreover have "history_inv (tr @ ev) w'"
    using history_inv_loop_step [OF step] run_step.prems(1) by (simp add: s)
  ultimately show ?case using run_step.IH by (auto simp: s)
qed simp

lemma waiting_inv_loop_step:
  assumes "loop_step add stopping c (w, q, pc) ev (w', q', pc')" and inv: "waiting_inv w"
  shows "waiting_inv w'"
  using assms(1)
proof cases
  case (ready_pop n h known r)
  with inv ready_step_fires [of "waitingForQueue w" "waitingEntryByData w" n "add c" q h known q' r]
  show ?thesis by (auto simp: waiting_inv_def)
next
  case (select_recv r rs dl)
  with take_entry_effect [OF inv select_recv(3,4)] show ?thesis by metis
next
  case (drain_recv r rs)
  with take_entry_effect [OF inv drain_recv(3,4)] show ?thesis by metis
qed (use inv in auto)

section \<open>An executable scheduler\<close>

text \<open>The step relation as a function of the case that the \<open>select\<close> takes.\<close>

datatype choice = TakeStop | TakeHeartbeat | TakeTimer | TakeEntry

fun loop_exec ::
    "(time \<Rightarrow> 'a \<Rightarrow> 'q \<Rightarrow> 'q) \<Rightarrow> ('q \<Rightarrow> bool) \<Rightarrow> time \<Rightarrow> choice \<Rightarrow> 'a waiting \<Rightarrow> 'q \<Rightarrow> loop_pc \<Rightarrow>
     ('a event list \<times> 'a waiting \<times> 'q \<times> loop_pc) option" where
  "loop_exec add stopping c ch w q LoopTop =
     Some ([], w, q, if stopping q then LoopExited else LoopReady c)"
| "loop_exec add stopping c ch w q (LoopReady now) =
     (case (ready_step now (add c) (waitingForQueue w) (waitingEntryByData w) q, pq_Peek (waitingForQueue w)) of
        (Some (h, known, q'), Some r) \<Rightarrow>
          Some ([Fired (data (mem (waitingForQueue w) r)) now],
                w\<lparr>waitingForQueue := h, waitingEntryByData := known\<rparr>, q', LoopReady now)
      | _ \<Rightarrow> Some ([], w, q, LoopSelect (nextReadyAt c now (waitingForQueue w))))"
| "loop_exec add stopping c ch w q (LoopSelect dl) =
     (case ch of
        TakeStop \<Rightarrow> if stopCh w then Some ([], w, q, LoopExited) else None
      | TakeHeartbeat \<Rightarrow> if heartbeat w then Some ([], w, q, LoopTop) else None
      | TakeTimer \<Rightarrow>
          (case dl of None \<Rightarrow> None | Some t \<Rightarrow> if t \<le> c then Some ([], w, q, LoopTop) else None)
      | TakeEntry \<Rightarrow>
          (case waitingForAddCh w of
             [] \<Rightarrow> None
           | r # rs \<Rightarrow>
               (case take_entry c (add c) r (w\<lparr>waitingForAddCh := rs\<rparr>) q of
                  (w', q', ev) \<Rightarrow> Some (ev, w', q', LoopDrain))))"
| "loop_exec add stopping c ch w q LoopDrain =
     (case waitingForAddCh w of
        [] \<Rightarrow> Some ([], w, q, LoopTop)
      | r # rs \<Rightarrow>
          (case take_entry c (add c) r (w\<lparr>waitingForAddCh := rs\<rparr>) q of
             (w', q', ev) \<Rightarrow> Some (ev, w', q', LoopDrain)))"
| "loop_exec add stopping c ch w q LoopExited = None"

lemma loop_exec_sound:
  assumes "loop_exec add stopping c ch w q pc = Some (ev, w', q', pc')"
  shows "loop_step add stopping c (w, q, pc) ev (w', q', pc')"
proof (cases pc)
  case (LoopReady now)
  show ?thesis
  proof (cases "ready_step now (add c) (waitingForQueue w) (waitingEntryByData w) q")
    case None
    with assms LoopReady show ?thesis
      using ready_end [where add = add and c = c and now = now and w = w and q = q and stopping = stopping]
      by auto
  next
    case (Some s)
    obtain h known q1 where s: "ready_step now (add c) (waitingForQueue w) (waitingEntryByData w) q =
        Some (h, known, q1)" using Some by (cases s) auto
    from ready_step_peek [OF this] obtain r where "pq_Peek (waitingForQueue w) = Some r" by blast
    with assms LoopReady s ready_pop [where add = add and c = c and stopping = stopping, OF s this]
    show ?thesis by simp
  qed
qed (use assms in \<open>auto split: choice.splits option.splits list.splits prod.splits if_splits
      intro: loop_step.intros\<close>)

lemma loop_exec_complete:
  assumes "loop_step add stopping c (w, q, pc) ev (w', q', pc')"
  shows "\<exists>ch. loop_exec add stopping c ch w q pc = Some (ev, w', q', pc')"
  using assms
proof cases
  case select_stop
  then show ?thesis by (intro exI [of _ TakeStop]) simp
next
  case select_heartbeat
  then show ?thesis by (intro exI [of _ TakeHeartbeat]) simp
next
  case select_timer
  then show ?thesis by (intro exI [of _ TakeTimer]) simp
next
  case select_recv
  then show ?thesis by (intro exI [of _ TakeEntry]) simp
qed simp_all

end
