(* ===== verification/Queue_Interface.thy ===== *)
theory Queue_Interface
  imports Prelude
begin

text \<open>
  The contract of \<open>workqueue.Interface\<close> (\<open>pkg/workqueue/queue.go\<close>, promised by the package comment
  in \<open>pkg/workqueue/doc.go\<close>), seen through three observations of a queue: the items that are ready,
  in the order in which they will be handed out; the items that are being processed; and those of
  the latter that were added again meanwhile. The locale states what every operation does to them.
  Clients of a work queue (the executor, the resource controller) are verified against this
  contract, the queues of the package are proved to meet it.
\<close>

text \<open>What a call of \<open>Get\<close> does: it waits, it returns \<open>shutdown = true\<close>, or it returns an item.\<close>

datatype 'a get_result = Blocked | Quit | Got 'a

locale work_queue =
  fixes add :: "'a \<Rightarrow> 'q \<Rightarrow> 'q"
    and get :: "'q \<Rightarrow> 'a get_result \<times> 'q"
    and fin :: "'a \<Rightarrow> 'q \<Rightarrow> 'q"
    and stop :: "'q \<Rightarrow> 'q"
    and len :: "'q \<Rightarrow> nat"
    and stopping :: "'q \<Rightarrow> bool"
    and ready :: "'q \<Rightarrow> 'a list"
    and running :: "'q \<Rightarrow> 'a set"
    and again :: "'q \<Rightarrow> 'a set"
    and invar :: "'q \<Rightarrow> bool"
  assumes wf: "invar q \<Longrightarrow>
      distinct (ready q) \<and> finite (running q) \<and> set (ready q) \<inter> running q = {} \<and> again q \<subseteq> running q"
    and len_ready: "invar q \<Longrightarrow> length (ready q) \<le> len q"
    and invar_add: "invar q \<Longrightarrow> invar (add x q)"
    and ready_add: "invar q \<Longrightarrow> ready (add x q) =
      (if stopping q \<or> x \<in> set (ready q) \<or> x \<in> running q then ready q else ready q @ [x])"
    and running_add: "invar q \<Longrightarrow> running (add x q) = running q"
    and again_add: "invar q \<Longrightarrow> again (add x q) =
      (if \<not> stopping q \<and> x \<in> running q then insert x (again q) else again q)"
    and stopping_add: "invar q \<Longrightarrow> stopping (add x q) = stopping q"
    and len_add: "invar q \<Longrightarrow> len q \<le> len (add x q) \<and> len (add x q) \<le> Suc (len q)"
    and get_empty: "invar q \<Longrightarrow> ready q = [] \<Longrightarrow>
      get q = (if stopping q then Quit else Blocked, q)"
    and get_ready: "invar q \<Longrightarrow> ready q = x # xs \<Longrightarrow>
      \<exists>q'. get q = (Got x, q') \<and> invar q' \<and> ready q' = xs \<and> running q' = insert x (running q) \<and>
           again q' = again q \<and> stopping q' = stopping q"
    and invar_fin: "invar q \<Longrightarrow> x \<in> running q \<Longrightarrow> invar (fin x q)"
    and ready_fin: "invar q \<Longrightarrow> x \<in> running q \<Longrightarrow>
      ready (fin x q) = (if x \<in> again q then ready q @ [x] else ready q)"
    and running_fin: "invar q \<Longrightarrow> x \<in> running q \<Longrightarrow> running (fin x q) = running q - {x}"
    and again_fin: "invar q \<Longrightarrow> x \<in> running q \<Longrightarrow> again (fin x q) = again q - {x}"
    and stopping_fin: "invar q \<Longrightarrow> x \<in> running q \<Longrightarrow> stopping (fin x q) = stopping q"
    and invar_stop: "invar q \<Longrightarrow> invar (stop q)"
    and stop_obs: "invar q \<Longrightarrow> stopping (stop q) \<and> ready (stop q) = ready q \<and>
      running (stop q) = running q \<and> again (stop q) = again q"
begin

text \<open>An item that is waiting in either form; what \<open>Add\<close> guarantees unless the queue stops.\<close>

lemma added_is_pending:
  assumes "invar q" and "\<not> stopping q"
  shows "x \<in> set (ready (add x q)) \<or> x \<in> again (add x q)"
  using assms by (auto simp: ready_add again_add)

lemma add_twice:
  assumes "invar q"
  shows "ready (add x (add x q)) = ready (add x q) \<and> again (add x (add x q)) = again (add x q)"
  using assms by (auto simp: ready_add again_add running_add stopping_add invar_add)

lemma add_other:
  assumes "invar q" and "y \<in> set (ready q)"
  shows "y \<in> set (ready (add x q))"
  using assms by (auto simp: ready_add)

text \<open>An item handed out was not being processed by anybody else.\<close>

lemma got_not_running:
  assumes "invar q" and "get q = (Got x, q')"
  shows "x \<notin> running q \<and> x \<in> running q' \<and> invar q'"
proof (cases "ready q")
  case Nil
  with assms show ?thesis by (simp add: get_empty split: if_splits)
next
  case (Cons y ys)
  with assms get_ready [OF assms(1) Cons] wf [OF assms(1)] show ?thesis by auto
qed

lemma got_obs:
  assumes "invar q" and "get q = (Got x, q')"
  shows "ready q = x # ready q' \<and> running q' = insert x (running q) \<and> again q' = again q \<and>
    stopping q' = stopping q"
proof (cases "ready q")
  case Nil
  with assms show ?thesis by (simp add: get_empty split: if_splits)
next
  case (Cons y ys)
  with assms get_ready [OF assms(1) Cons] show ?thesis by auto
qed

lemma get_result_cases:
  assumes "invar q"
  obtains (ready) x xs q' where "ready q = x # xs" "get q = (Got x, q')" "invar q'" "ready q' = xs"
      "running q' = insert x (running q)" "again q' = again q" "stopping q' = stopping q"
    | (quit) "ready q = []" "stopping q" "get q = (Quit, q)"
    | (blocked) "ready q = []" "\<not> stopping q" "get q = (Blocked, q)"
proof (cases "ready q")
  case Nil
  with assms show ?thesis
    by (cases "stopping q") (auto simp: get_empty intro: that(2,3))
next
  case (Cons x xs)
  from get_ready [OF assms Cons] Cons show ?thesis by (auto intro: that(1))
qed

text \<open>An item re-added while it was being processed becomes ready when its worker finishes.\<close>

lemma readded_becomes_ready:
  assumes "invar q" and "x \<in> running q" and "\<not> stopping q"
  shows "x \<in> set (ready (fin x (add x q)))"
  using assms by (simp add: ready_fin invar_add running_add again_add)

end

section \<open>Embedding a queue\<close>

text \<open>
  A struct that embeds an \<open>Interface\<close> has its methods promoted: they act on the embedded queue and
  leave the other fields. Such a struct is a work queue again.
\<close>

locale embedded_queue = work_queue +
  fixes inner :: "'d \<Rightarrow> 'b"
    and o_add :: "'a \<Rightarrow> 'd \<Rightarrow> 'd"
    and o_get :: "'d \<Rightarrow> 'a get_result \<times> 'd"
    and o_fin :: "'a \<Rightarrow> 'd \<Rightarrow> 'd"
    and o_stop :: "'d \<Rightarrow> 'd"
    and o_len :: "'d \<Rightarrow> nat"
    and o_invar :: "'d \<Rightarrow> bool"
  assumes o_inner: "o_invar d \<Longrightarrow> invar (inner d)"
    and o_add: "inner (o_add x d) = add x (inner d)"
    and o_get: "get (inner d) = (r, q) \<Longrightarrow> \<exists>d'. o_get d = (r, d') \<and> inner d' = q \<and> (q = inner d \<longrightarrow> d' = d)"
    and o_fin: "inner (o_fin x d) = fin x (inner d)"
    and o_stop: "o_invar d \<Longrightarrow> inner (o_stop d) = stop (inner d) \<or>
      stopping (inner d) \<and> inner (o_stop d) = inner d"
    and o_len: "o_invar d \<Longrightarrow> len (inner d) \<le> o_len d"
    and o_len_add: "o_invar d \<Longrightarrow>
      o_len (o_add x d) + len (inner d) = o_len d + len (inner (o_add x d))"
    and o_invar_add: "o_invar d \<Longrightarrow> o_invar (o_add x d)"
    and o_invar_get: "o_invar d \<Longrightarrow> o_get d = (r, d') \<Longrightarrow> o_invar d'"
    and o_invar_fin: "o_invar d \<Longrightarrow> x \<in> running (inner d) \<Longrightarrow> o_invar (o_fin x d)"
    and o_invar_stop: "o_invar d \<Longrightarrow> o_invar (o_stop d)"
begin

lemma promoted: "work_queue o_add o_get o_fin o_stop o_len (\<lambda>d. stopping (inner d))
    (\<lambda>d. ready (inner d)) (\<lambda>d. running (inner d)) (\<lambda>d. again (inner d)) o_invar"
proof (unfold_locales, goal_cases)
  case (1 d)
  then show ?case by (rule wf [OF o_inner])
next
  case (2 d)
  with len_ready [OF o_inner [OF 2]] o_len [OF 2] show ?case by simp
next
  case (3 d x)
  then show ?case by (rule o_invar_add)
next
  case (8 d x)
  with len_add [OF o_inner [OF 8], of x] o_len_add [OF 8, of x] show ?case by (simp add: o_add)
next
  case (9 d)
  with get_empty [OF o_inner [OF 9(1)]] o_get [of d] show ?case by force
next
  case (10 d x xs)
  from get_ready [OF o_inner [OF 10(1)] 10(2)] obtain q where q: "get (inner d) = (Got x, q)"
    "ready q = xs" "running q = insert x (running (inner d))" "again q = again (inner d)"
    "stopping q = stopping (inner d)" by blast
  from o_get [OF q(1)] obtain d' where "o_get d = (Got x, d')" "inner d' = q" by blast
  with q o_invar_get [OF 10(1)] show ?case by auto
next
  case (16 d)
  then show ?case by (rule o_invar_stop)
next
  case (17 d)
  with stop_obs [OF o_inner [OF 17]] o_stop [OF 17] show ?case by auto
qed (simp_all add: o_add o_fin o_inner o_invar_fin ready_add running_add again_add stopping_add
    ready_fin running_fin again_fin stopping_fin)

end

sublocale embedded_queue \<subseteq> promoted: work_queue o_add o_get o_fin o_stop o_len
  "\<lambda>d. stopping (inner d)" "\<lambda>d. ready (inner d)" "\<lambda>d. running (inner d)" "\<lambda>d. again (inner d)" o_invar
  by (rule promoted)

section \<open>Rate limited queues\<close>

text \<open>
  The contract of \<open>RateLimitingInterface\<close>: \<open>AddRateLimited\<close> counts one more requeue of the item and
  adds it now or later, \<open>Forget\<close> resets the count, nothing else changes a count. An item added for
  later arrives by itself (\<open>arrive\<close>), and arriving is an \<open>Add\<close>.
\<close>

locale rate_limited_queue = work_queue +
  fixes add_limited :: "'a \<Rightarrow> 'b \<Rightarrow> 'b"
    and forget :: "'a \<Rightarrow> 'b \<Rightarrow> 'b"
    and num :: "'a \<Rightarrow> 'b \<Rightarrow> nat"
    and arrive :: "'b \<Rightarrow> 'b \<Rightarrow> bool"
  assumes invar_limited: "invar q \<Longrightarrow> invar (add_limited x q)"
    and obs_limited: "invar q \<Longrightarrow>
      running (add_limited x q) = running q \<and> stopping (add_limited x q) = stopping q \<and>
      (ready (add_limited x q) = ready q \<and> again (add_limited x q) = again q \<or>
       ready (add_limited x q) = ready (add x q) \<and> again (add_limited x q) = again (add x q))"
    and num_limited: "invar q \<Longrightarrow> num y (add_limited x q) = (if y = x then Suc (num y q) else num y q)"
    and invar_forget: "invar q \<Longrightarrow> invar (forget x q)"
    and obs_forget: "running (forget x q) = running q" "stopping (forget x q) = stopping q"
      "ready (forget x q) = ready q" "again (forget x q) = again q"
    and num_forget: "num y (forget x q) = (if y = x then 0 else num y q)"
    and num_add: "num y (add x q) = num y q"
    and num_get: "get q = (r, q') \<Longrightarrow> num y q' = num y q"
    and num_fin: "num y (fin x q) = num y q"
    and num_stop: "num y (stop q) = num y q"
    and invar_arrive: "arrive q q' \<Longrightarrow> invar q \<Longrightarrow> invar q'"
    and obs_arrive: "arrive q q' \<Longrightarrow> invar q \<Longrightarrow> running q' = running q \<and> stopping q' = stopping q \<and>
      (ready q' = ready q \<and> again q' = again q \<or>
       (\<exists>x. ready q' = ready (add x q) \<and> again q' = again (add x q)))"
    and num_arrive: "arrive q q' \<Longrightarrow> num y q' = num y q"
begin

lemma num_limited_bound:
  assumes "invar q" and "num x q < m"
  shows "num y (add_limited x q) \<le> max (num y q) m"
  using assms by (simp add: num_limited)

lemma ready_arrive: "arrive q q' \<Longrightarrow> invar q \<Longrightarrow> set (ready q) \<subseteq> set (ready q')"
  using obs_arrive [of q q'] add_other [of q] by fastforce

lemma ready_limited: "invar q \<Longrightarrow> set (ready q) \<subseteq> set (ready (add_limited x q))"
  using obs_limited [of q x] add_other [of q] by fastforce

end

end
