(* ===== verification/Metrics.thy ===== *)
theory Metrics
  imports Prelude
begin

text \<open>
  The metrics hooks of the work queues (\<open>pkg/workqueue/metrics.go\<close>). A metric object is supplied
  by a \<open>MetricsProvider\<close>; what a queue does to it is the sequence of calls it makes, so the state
  keeps that sequence. Samples are kept in nanoseconds: \<open>sinceInSeconds\<close> only rescales them.
\<close>

section \<open>Calls on the provider's metric objects\<close>

datatype metric_call =
    Depth_Inc
  | Depth_Dec
  | Adds_Inc
  | Latency_Observe duration
  | WorkDuration_Observe duration
  | UnfinishedWork_Set duration
  | LongestRunning_Set duration

text \<open>The value of the depth gauge after a sequence of calls.\<close>

fun depth_gauge :: "metric_call list \<Rightarrow> int" where
  "depth_gauge [] = 0"
| "depth_gauge (c # cs) =
     (case c of Depth_Inc \<Rightarrow> 1 | Depth_Dec \<Rightarrow> - 1 | _ \<Rightarrow> 0) + depth_gauge cs"

lemma depth_gauge_append [simp]: "depth_gauge (cs @ ds) = depth_gauge cs + depth_gauge ds"
  by (induction cs) simp_all

text \<open>The value of the adds counter after a sequence of calls.\<close>

definition adds_counter :: "metric_call list \<Rightarrow> nat" where
  "adds_counter cs = length (filter (\<lambda>c. c = Adds_Inc) cs)"

lemma adds_counter_simps [simp]:
  "adds_counter [] = 0"
  "adds_counter (cs @ ds) = adds_counter cs + adds_counter ds"
  "adds_counter (c # cs) = (if c = Adds_Inc then 1 else 0) + adds_counter cs"
  by (simp_all add: adds_counter_def)

section \<open>Queue metrics\<close>

record 'a defaultQueueMetrics =
  addTimes :: "'a \<rightharpoonup> time"
  processingStartTimes :: "'a \<rightharpoonup> time"
  calls :: "metric_call list"

datatype 'a queueMetrics =
    noMetrics
  | DefaultQueueMetrics "'a defaultQueueMetrics"

definition sinceInSeconds :: "time \<Rightarrow> time \<Rightarrow> duration" where
  "sinceInSeconds now start = now - start"

definition default_add :: "time \<Rightarrow> 'a \<Rightarrow> 'a defaultQueueMetrics \<Rightarrow> 'a defaultQueueMetrics" where
  "default_add now item m =
     m\<lparr>calls := calls m @ [Adds_Inc, Depth_Inc],
       addTimes := (case addTimes m item of
                      Some _ \<Rightarrow> addTimes m
                    | None \<Rightarrow> (addTimes m)(item \<mapsto> now))\<rparr>"

definition default_get :: "time \<Rightarrow> 'a \<Rightarrow> 'a defaultQueueMetrics \<Rightarrow> 'a defaultQueueMetrics" where
  "default_get now item m =
     (let m1 = m\<lparr>calls := calls m @ [Depth_Dec],
                 processingStartTimes := (processingStartTimes m)(item \<mapsto> now)\<rparr>
      in case addTimes m1 item of
           Some startTime \<Rightarrow>
             m1\<lparr>calls := calls m1 @ [Latency_Observe (sinceInSeconds now startTime)],
                addTimes := (addTimes m1)(item := None)\<rparr>
         | None \<Rightarrow> m1)"

definition default_done :: "time \<Rightarrow> 'a \<Rightarrow> 'a defaultQueueMetrics \<Rightarrow> 'a defaultQueueMetrics" where
  "default_done now item m =
     (case processingStartTimes m item of
        Some startTime \<Rightarrow>
          m\<lparr>calls := calls m @ [WorkDuration_Observe (sinceInSeconds now startTime)],
            processingStartTimes := (processingStartTimes m)(item := None)\<rparr>
      | None \<Rightarrow> m)"

text \<open>
  \<open>updateUnfinishedWork\<close> reads the clock once per entry, so the reading is a function of the item;
  the loop over the map is order independent: a sum and a maximum that starts at zero.
\<close>

definition default_updateUnfinishedWork ::
    "('a \<Rightarrow> time) \<Rightarrow> 'a defaultQueueMetrics \<Rightarrow> 'a defaultQueueMetrics" where
  "default_updateUnfinishedWork now m =
     (let age = (\<lambda>k. sinceInSeconds (now k) (the (processingStartTimes m k)));
          ks = dom (processingStartTimes m);
          total = (\<Sum>k\<in>ks. age k);
          oldest = Max (insert 0 (age ` ks))
      in m\<lparr>calls := calls m @ [UnfinishedWork_Set total, LongestRunning_Set oldest]\<rparr>)"

fun metrics_add :: "time \<Rightarrow> 'a \<Rightarrow> 'a queueMetrics \<Rightarrow> 'a queueMetrics" where
  "metrics_add now item noMetrics = noMetrics"
| "metrics_add now item (DefaultQueueMetrics m) = DefaultQueueMetrics (default_add now item m)"

fun metrics_get :: "time \<Rightarrow> 'a \<Rightarrow> 'a queueMetrics \<Rightarrow> 'a queueMetrics" where
  "metrics_get now item noMetrics = noMetrics"
| "metrics_get now item (DefaultQueueMetrics m) = DefaultQueueMetrics (default_get now item m)"

fun metrics_done :: "time \<Rightarrow> 'a \<Rightarrow> 'a queueMetrics \<Rightarrow> 'a queueMetrics" where
  "metrics_done now item noMetrics = noMetrics"
| "metrics_done now item (DefaultQueueMetrics m) = DefaultQueueMetrics (default_done now item m)"

fun metrics_updateUnfinishedWork :: "('a \<Rightarrow> time) \<Rightarrow> 'a queueMetrics \<Rightarrow> 'a queueMetrics" where
  "metrics_updateUnfinishedWork now noMetrics = noMetrics"
| "metrics_updateUnfinishedWork now (DefaultQueueMetrics m) =
     DefaultQueueMetrics (default_updateUnfinishedWork now m)"

section \<open>Retry metrics\<close>

text \<open>A nil \<open>*defaultRetryMetrics\<close> is \<open>None\<close>; otherwise the number of \<open>retries.Inc()\<close> calls.\<close>

type_synonym retryMetrics = "nat option"

definition retry :: "retryMetrics \<Rightarrow> retryMetrics" where
  "retry m = (case m of None \<Rightarrow> None | Some n \<Rightarrow> Some (Suc n))"

section \<open>The metrics factory\<close>

text \<open>A provider other than the no-op one is identified by a number.\<close>

datatype MetricsProvider =
    noopMetricsProvider
  | Provider nat

record queueMetricsFactory =
  metricsProvider :: "MetricsProvider"
  onlyOnce :: bool

definition globalMetricsFactory :: "queueMetricsFactory" where
  "globalMetricsFactory = \<lparr>metricsProvider = noopMetricsProvider, onlyOnce = False\<rparr>"

definition setProvider :: "MetricsProvider \<Rightarrow> queueMetricsFactory \<Rightarrow> queueMetricsFactory" where
  "setProvider mp f =
     (if onlyOnce f then f else f\<lparr>metricsProvider := mp, onlyOnce := True\<rparr>)"

definition newQueueMetrics :: "queueMetricsFactory \<Rightarrow> string \<Rightarrow> 'a queueMetrics" where
  "newQueueMetrics f name =
     (if length name = 0 \<or> metricsProvider f = noopMetricsProvider then noMetrics
      else DefaultQueueMetrics
             \<lparr>addTimes = Map.empty, processingStartTimes = Map.empty, calls = []\<rparr>)"

definition newRetryMetrics :: "string \<Rightarrow> retryMetrics" where
  "newRetryMetrics name = (if length name = 0 then None else Some 0)"

lemmas [op_defs] =
  sinceInSeconds_def default_add_def default_get_def default_done_def
  default_updateUnfinishedWork_def retry_def setProvider_def newQueueMetrics_def
  newRetryMetrics_def

section \<open>What the metrics track\<close>

text \<open>
  The metrics agree with a set of waiting items and a set of items being processed: the depth
  gauge is the number of waiting items, every waiting item has an add time, every item being
  processed has a start time, and nothing else has one.
\<close>

fun metrics_track :: "'a set \<Rightarrow> 'a set \<Rightarrow> 'a queueMetrics \<Rightarrow> bool" where
  "metrics_track waiting running noMetrics = True"
| "metrics_track waiting running (DefaultQueueMetrics m) \<longleftrightarrow>
     depth_gauge (calls m) = int (card waiting) \<and> dom (addTimes m) = waiting \<and>
     dom (processingStartTimes m) = running"

lemma metrics_track_new [simp]: "metrics_track {} {} (newQueueMetrics f name)"
  by (simp add: newQueueMetrics_def)

lemma metrics_track_add:
  "metrics_track W R m \<Longrightarrow> x \<notin> W \<Longrightarrow> finite W \<Longrightarrow>
    metrics_track (insert x W) R (metrics_add now x m)"
  by (cases m) (auto simp: default_add_def split: option.splits)

lemma metrics_track_get:
  assumes "metrics_track W R m" and "x \<in> W" and "finite W"
  shows "metrics_track (W - {x}) (insert x R) (metrics_get now x m)"
proof (cases m)
  case (DefaultQueueMetrics d)
  have "int (card (W - {x})) = int (card W) - 1"
    using card_Suc_Diff1 [OF assms(3,2)] by linarith
  moreover obtain t where "addTimes d x = Some t"
    using assms(1,2) DefaultQueueMetrics by auto
  ultimately show ?thesis
    using assms(1) DefaultQueueMetrics by (auto simp: default_get_def)
qed simp

lemma metrics_track_done:
  "metrics_track W R m \<Longrightarrow> metrics_track W (R - {x}) (metrics_done now x m)"
  by (cases m) (auto simp: default_done_def split: option.splits)

lemma metrics_track_updateUnfinishedWork:
  "metrics_track W R m \<Longrightarrow> metrics_track W R (metrics_updateUnfinishedWork now m)"
  by (cases m) (auto simp: default_updateUnfinishedWork_def Let_def)

end
