(* ===== verification/Queue.thy ===== *)
theory Queue
  imports Queue_Interface Metrics
begin

text \<open>
  The basic work queue (\<open>pkg/workqueue/queue.go\<close>, type \<open>Type\<close>). Every method takes the lock for its
  whole body, so each is one atomic function on the record of the queue's fields. A method that
  notifies the condition variable returns what it does to it (\<open>wake\<close>); a \<open>Get\<close> that has to call
  \<open>cond.Wait\<close> returns \<open>Blocked\<close> with the state unchanged. Threads, parking and the drain loop of
  \<open>ShutDownWithDrain\<close> are in the theory \<open>Queue_Threads\<close>.
\<close>

section \<open>Data\<close>

datatype wake = NoWake | Signal | Broadcast

record 'a Type =
  queue :: "'a list"
  dirty :: "'a set"
  processing :: "'a set"
  shuttingDown :: bool
  drain :: bool
  metrics :: "'a queueMetrics"

text \<open>The type \<open>set\<close> of the source is a map to the empty struct.\<close>

definition set_has :: "'a set \<Rightarrow> 'a \<Rightarrow> bool" where
  [simp]: "set_has s item \<longleftrightarrow> item \<in> s"

definition set_insert :: "'a set \<Rightarrow> 'a \<Rightarrow> 'a set" where
  [simp]: "set_insert s item = insert item s"

definition set_delete :: "'a set \<Rightarrow> 'a \<Rightarrow> 'a set" where
  [simp]: "set_delete s item = s - {item}"

definition set_len :: "'a set \<Rightarrow> nat" where
  [simp]: "set_len s = card s"

section \<open>Operations\<close>

definition newQueue :: "'a queueMetrics \<Rightarrow> 'a Type" where
  "newQueue m = \<lparr>queue = [], dirty = {}, processing = {}, shuttingDown = False, drain = False,
                 metrics = m\<rparr>"

definition NewNamed :: "queueMetricsFactory \<Rightarrow> string \<Rightarrow> 'a Type" where
  "NewNamed f name = newQueue (newQueueMetrics f name)"

definition New :: "queueMetricsFactory \<Rightarrow> 'a Type" where
  "New f = NewNamed f ''''"

definition Add :: "time \<Rightarrow> 'a \<Rightarrow> 'a Type \<Rightarrow> 'a Type \<times> wake" where
  "Add now item q =
     (if shuttingDown q then (q, NoWake)
      else if set_has (dirty q) item then (q, NoWake)
      else
        let q1 = q\<lparr>metrics := metrics_add now item (metrics q)\<rparr>;
            q2 = q1\<lparr>dirty := set_insert (dirty q1) item\<rparr>
        in if set_has (processing q2) item then (q2, NoWake)
           else (q2\<lparr>queue := queue q2 @ [item]\<rparr>, Signal))"

definition Len :: "'a Type \<Rightarrow> nat" where
  "Len q = length (queue q)"

definition Get :: "time \<Rightarrow> 'a Type \<Rightarrow> 'a get_result \<times> 'a Type" where
  "Get now q =
     (case queue q of
        [] \<Rightarrow> (if shuttingDown q then (Quit, q) else (Blocked, q))
      | item # rest \<Rightarrow>
          (let q1 = q\<lparr>queue := rest\<rparr>;
               q2 = q1\<lparr>metrics := metrics_get now item (metrics q1)\<rparr>;
               q3 = q2\<lparr>processing := set_insert (processing q2) item\<rparr>;
               q4 = q3\<lparr>dirty := set_delete (dirty q3) item\<rparr>
           in (Got item, q4)))"

definition Done :: "time \<Rightarrow> 'a \<Rightarrow> 'a Type \<Rightarrow> 'a Type \<times> wake" where
  "Done now item q =
     (let q1 = q\<lparr>metrics := metrics_done now item (metrics q)\<rparr>;
          q2 = q1\<lparr>processing := set_delete (processing q1) item\<rparr>
      in if set_has (dirty q2) item then (q2\<lparr>queue := queue q2 @ [item]\<rparr>, Signal)
         else if set_len (processing q2) = 0 then (q2, Signal)
         else (q2, NoWake))"

definition setDrain :: "bool \<Rightarrow> 'a Type \<Rightarrow> 'a Type" where
  "setDrain shouldDrain q = q\<lparr>drain := shouldDrain\<rparr>"

definition shutdown :: "'a Type \<Rightarrow> 'a Type \<times> wake" where
  "shutdown q = (q\<lparr>shuttingDown := True\<rparr>, Broadcast)"

definition ShutDown :: "'a Type \<Rightarrow> 'a Type \<times> wake" where
  "ShutDown q = shutdown (setDrain False q)"

definition isProcessing :: "'a Type \<Rightarrow> bool" where
  "isProcessing q \<longleftrightarrow> set_len (processing q) \<noteq> 0"

definition shouldDrain :: "'a Type \<Rightarrow> bool" where
  "shouldDrain q = drain q"

text \<open>\<open>waitForProcessing\<close> either returns at once (\<open>False\<close>) or parks the caller (\<open>True\<close>).\<close>

definition waitForProcessing :: "'a Type \<Rightarrow> bool" where
  "waitForProcessing q \<longleftrightarrow> \<not> set_len (processing q) = 0"

definition ShuttingDown :: "'a Type \<Rightarrow> bool" where
  "ShuttingDown q = shuttingDown q"

text \<open>One tick of \<open>updateUnfinishedWorkLoop\<close>; the flag says whether the loop goes on.\<close>

definition updateUnfinishedWorkTick :: "('a \<Rightarrow> time) \<Rightarrow> 'a Type \<Rightarrow> 'a Type \<times> bool" where
  "updateUnfinishedWorkTick now q =
     (if \<not> shuttingDown q
      then (q\<lparr>metrics := metrics_updateUnfinishedWork now (metrics q)\<rparr>, True)
      else (q, False))"

lemmas [op_defs] =
  newQueue_def NewNamed_def New_def Add_def Len_def Get_def Done_def setDrain_def shutdown_def
  ShutDown_def isProcessing_def shouldDrain_def waitForProcessing_def ShuttingDown_def
  updateUnfinishedWorkTick_def

section \<open>What the operations do to each field\<close>

lemma Add_fields [simp]:
  "shuttingDown (fst (Add now x q)) = shuttingDown q"
  "drain (fst (Add now x q)) = drain q"
  "processing (fst (Add now x q)) = processing q"
  "dirty (fst (Add now x q)) = (if shuttingDown q then dirty q else insert x (dirty q))"
  "queue (fst (Add now x q)) =
     (if shuttingDown q \<or> x \<in> dirty q \<or> x \<in> processing q then queue q else queue q @ [x])"
  by (simp_all add: Add_def Let_def insert_absorb)

lemma Done_fields [simp]:
  "shuttingDown (fst (Done now x q)) = shuttingDown q"
  "drain (fst (Done now x q)) = drain q"
  "processing (fst (Done now x q)) = processing q - {x}"
  "dirty (fst (Done now x q)) = dirty q"
  "queue (fst (Done now x q)) = (if x \<in> dirty q then queue q @ [x] else queue q)"
  by (simp_all add: Done_def Let_def)

lemma ShutDown_fields [simp]:
  "shuttingDown (fst (ShutDown q))" "drain (fst (ShutDown q)) = False"
  "processing (fst (ShutDown q)) = processing q" "dirty (fst (ShutDown q)) = dirty q"
  "queue (fst (ShutDown q)) = queue q"
  by (simp_all add: ShutDown_def shutdown_def setDrain_def)

lemma shutdown_fields [simp]:
  "shuttingDown (fst (shutdown q))" "drain (fst (shutdown q)) = drain q"
  "processing (fst (shutdown q)) = processing q" "dirty (fst (shutdown q)) = dirty q"
  "queue (fst (shutdown q)) = queue q" "snd (shutdown q) = Broadcast"
  by (simp_all add: shutdown_def)

lemma setDrain_fields [simp]:
  "shuttingDown (setDrain b q) = shuttingDown q" "drain (setDrain b q) = b"
  "processing (setDrain b q) = processing q" "dirty (setDrain b q) = dirty q"
  "queue (setDrain b q) = queue q"
  by (simp_all add: setDrain_def)

lemma Get_empty: "queue q = [] \<Longrightarrow> Get now q = (if shuttingDown q then Quit else Blocked, q)"
  by (simp add: Get_def)

lemma Get_Cons_fields:
  assumes "queue q = x # xs"
  shows "fst (Get now q) = Got x"
    "queue (snd (Get now q)) = xs" "dirty (snd (Get now q)) = dirty q - {x}"
    "processing (snd (Get now q)) = insert x (processing q)"
    "shuttingDown (snd (Get now q)) = shuttingDown q" "drain (snd (Get now q)) = drain q"
  using assms by (simp_all add: Get_def Let_def)

section \<open>Invariant\<close>

text \<open>
  The comment on the field \<open>queue\<close>: every element is in the dirty set and not in the processing
  set. The invariant is the exact form of it, and no element is queued twice.
\<close>

definition q_inv :: "'a Type \<Rightarrow> bool" where
  [inv_defs]: "q_inv q \<longleftrightarrow>
     finite (dirty q) \<and> finite (processing q) \<and> distinct (queue q) \<and>
     set (queue q) = dirty q - processing q \<and>
     metrics_track (dirty q) (processing q) (metrics q)"

lemma q_invD:
  assumes "q_inv q"
  shows "finite (dirty q)" "finite (processing q)" "distinct (queue q)"
    "set (queue q) = dirty q - processing q" "metrics_track (dirty q) (processing q) (metrics q)"
  using assms by (simp_all add: q_inv_def)

lemma q_inv_newQueue: "metrics_track {} {} m \<Longrightarrow> q_inv (newQueue m)"
  by (simp add: q_inv_def newQueue_def)

lemma q_inv_NewNamed [simp]: "q_inv (NewNamed f name)"
  by (simp add: NewNamed_def q_inv_newQueue)

lemma q_inv_Add: "q_inv q \<Longrightarrow> q_inv (fst (Add now item q))"
  by (auto simp: q_inv_def Add_def Let_def metrics_track_add)

lemma q_inv_Get:
  assumes "q_inv q"
  shows "q_inv (snd (Get now q))"
proof (cases "queue q")
  case (Cons item rest)
  with q_invD [OF assms] have "item \<in> dirty q" "item \<notin> processing q" "item \<notin> set rest"
      "set rest = (dirty q - {item}) - insert item (processing q)" "distinct rest"
    by auto
  with q_invD [OF assms] Cons metrics_track_get [of "dirty q" "processing q" "metrics q" item now]
  show ?thesis by (simp add: q_inv_def Get_def Let_def)
qed (use assms in \<open>simp add: Get_def\<close>)

text \<open>\<open>Done\<close> keeps the invariant for an item that is being processed, as its contract demands.\<close>

lemma q_inv_Done:
  assumes "q_inv q" and "item \<in> processing q"
  shows "q_inv (fst (Done now item q))"
  using q_invD [OF assms(1)] assms(2)
  by (auto simp: q_inv_def Done_def Let_def metrics_track_done)

lemma q_inv_setDrain: "q_inv q \<Longrightarrow> q_inv (setDrain b q)"
  by (simp add: q_inv_def setDrain_def)

lemma q_inv_shutdown: "q_inv q \<Longrightarrow> q_inv (fst (shutdown q))"
  by (simp add: q_inv_def shutdown_def)

lemma q_inv_updateUnfinishedWorkTick: "q_inv q \<Longrightarrow> q_inv (fst (updateUnfinishedWorkTick now q))"
  by (simp add: q_inv_def updateUnfinishedWorkTick_def metrics_track_updateUnfinishedWork)

lemmas q_inv_ops =
  q_inv_Add q_inv_Get q_inv_Done q_inv_setDrain q_inv_shutdown q_inv_updateUnfinishedWorkTick

section \<open>The queue meets the interface contract\<close>

definition q_again :: "'a Type \<Rightarrow> 'a set" where
  "q_again q = dirty q \<inter> processing q"

interpretation wq: work_queue
  "\<lambda>x q. fst (Add now x q)" "Get now" "\<lambda>x q. fst (Done now x q)" "\<lambda>q. fst (ShutDown q)"
  Len ShuttingDown queue processing q_again q_inv
  for now :: time
proof (unfold_locales, goal_cases)
  case (1 q)
  then show ?case by (auto simp: q_inv_def q_again_def)
next
  case (2 q)
  show ?case by (simp add: Len_def)
next
  case (3 q x)
  then show ?case by (rule q_inv_Add)
next
  case (4 q x)
  then show ?case by (auto simp: q_inv_def ShuttingDown_def)
next
  case (9 q)
  then show ?case by (simp add: Get_empty ShuttingDown_def)
next
  case (10 q x xs)
  then have "Get now q = (Got x, snd (Get now q))"
    by (metis Get_Cons_fields(1) prod.collapse)
  with 10 show ?case
    using q_inv_Get [of q now] q_invD(4) [of q]
    by (fastforce simp: Get_Cons_fields q_again_def ShuttingDown_def)
next
  case (11 q x)
  then show ?case by (rule q_inv_Done)
next
  case (16 q)
  then show ?case by (simp add: ShutDown_def q_inv_shutdown q_inv_setDrain)
qed (auto simp: q_again_def Len_def ShuttingDown_def)

end
