(* ===== verification/Delaying_Queue.thy ===== *)
theory Delaying_Queue
  imports Waiting_Loop Queue "HOL-Library.Multiset"
begin

text \<open>
  The delaying queue (\<open>pkg/workqueue/delaying_queue.go\<close>, type \<open>delayingType\<close>): the embedded work
  queue, the waiting loop, and \<open>AddAfter\<close>. The system of the second half runs the loop beside any
  number of goroutines inside \<open>AddAfter\<close> and any client of the embedded queue, under a clock that
  only goes forward.
\<close>

section \<open>Data and sequential operations\<close>

record 'a delayingType =
  Interface :: "'a Type"
  waiting :: "'a waiting"
  stopOnce :: bool
  retries :: retryMetrics

text \<open>The argument \<open>z\<close> is the content of memory that has not been allocated; it is never read.\<close>

definition newDelayingQueue :: "'a waitFor \<Rightarrow> 'a Type \<Rightarrow> string \<Rightarrow> 'a delayingType" where
  "newDelayingQueue z q name =
     \<lparr>Interface = q, waiting = new_waiting z, stopOnce = False, retries = newRetryMetrics name\<rparr>"

definition NewDelayingQueueWithCustomQueue :: "'a waitFor \<Rightarrow> 'a Type \<Rightarrow> string \<Rightarrow> 'a delayingType" where
  "NewDelayingQueueWithCustomQueue z q name = newDelayingQueue z q name"

definition NewDelayingQueueWithCustomClock ::
    "queueMetricsFactory \<Rightarrow> 'a waitFor \<Rightarrow> string \<Rightarrow> 'a delayingType" where
  "NewDelayingQueueWithCustomClock f z name = newDelayingQueue z (NewNamed f name) name"

definition NewNamedDelayingQueue :: "queueMetricsFactory \<Rightarrow> 'a waitFor \<Rightarrow> string \<Rightarrow> 'a delayingType" where
  "NewNamedDelayingQueue f z name = NewDelayingQueueWithCustomClock f z name"

definition NewDelayingQueue :: "queueMetricsFactory \<Rightarrow> 'a waitFor \<Rightarrow> 'a delayingType" where
  "NewDelayingQueue f z = NewDelayingQueueWithCustomClock f z ''''"

definition delaying_Len :: "'a delayingType \<Rightarrow> nat" where
  "delaying_Len q =
     length (waitingForAddCh (waiting q)) + pq_Len (waitingForQueue (waiting q)) + Len (Interface q)"

definition delaying_ShutDown :: "'a delayingType \<Rightarrow> 'a delayingType" where
  "delaying_ShutDown q =
     (if stopOnce q then q
      else q\<lparr>Interface := fst (ShutDown (Interface q)),
             waiting := (waiting q)\<lparr>stopCh := True, heartbeat := False\<rparr>, stopOnce := True\<rparr>)"

text \<open>The methods promoted from the embedded queue.\<close>

definition delaying_Add :: "time \<Rightarrow> 'a \<Rightarrow> 'a delayingType \<Rightarrow> 'a delayingType" where
  "delaying_Add now x q = q\<lparr>Interface := fst (Add now x (Interface q))\<rparr>"

definition delaying_Get :: "time \<Rightarrow> 'a delayingType \<Rightarrow> 'a get_result \<times> 'a delayingType" where
  "delaying_Get now q = (case Get now (Interface q) of (r, i) \<Rightarrow> (r, q\<lparr>Interface := i\<rparr>))"

definition delaying_Done :: "time \<Rightarrow> 'a \<Rightarrow> 'a delayingType \<Rightarrow> 'a delayingType" where
  "delaying_Done now x q = q\<lparr>Interface := fst (Done now x (Interface q))\<rparr>"

text \<open>
  \<open>AddAfter\<close> in the pieces other goroutines can run between: the check of \<open>ShuttingDown\<close> with the
  retry metric, the immediate \<open>Add\<close> or the evaluation of the entry, and the \<open>select\<close>.
\<close>

datatype 'a sender = Checked 'a duration | Sending 'a time

definition AddAfter_check :: "'a \<Rightarrow> duration \<Rightarrow> 'a delayingType \<Rightarrow> 'a delayingType \<times> 'a sender option" where
  "AddAfter_check item d q =
     (if ShuttingDown (Interface q) then (q, None)
      else (q\<lparr>retries := retry (retries q)\<rparr>, Some (Checked item d)))"

definition AddAfter_enter :: "time \<Rightarrow> 'a \<Rightarrow> duration \<Rightarrow> 'a delayingType \<Rightarrow> 'a delayingType \<times> 'a sender option" where
  "AddAfter_enter now item d q =
     (if d \<le> 0 then (delaying_Add now item q, None) else (q, Some (Sending item (now + d))))"

definition AddAfter_send :: "'a \<Rightarrow> time \<Rightarrow> 'a delayingType \<Rightarrow> 'a delayingType" where
  "AddAfter_send item t q = q\<lparr>waiting := send item t (waiting q)\<rparr>"

text \<open>
  The whole call without interference. The \<open>select\<close> takes a ready case; when both are ready it may
  take either (\<open>pick\<close>: the stop channel). When none is ready the caller blocks, holding its entry.
\<close>

definition AddAfter ::
    "time \<Rightarrow> bool \<Rightarrow> 'a \<Rightarrow> duration \<Rightarrow> 'a delayingType \<Rightarrow> 'a delayingType \<times> 'a sender option" where
  "AddAfter now pick item d q =
     (case AddAfter_check item d q of
        (q1, None) \<Rightarrow> (q1, None)
      | (q1, Some _) \<Rightarrow>
          (case AddAfter_enter now item d q1 of
             (q2, Some (Sending x t)) \<Rightarrow>
               if stopCh (waiting q2) \<and> (pick \<or> \<not> can_send (waiting q2)) then (q2, None)
               else if can_send (waiting q2) then (AddAfter_send x t q2, None)
               else (q2, Some (Sending x t))
           | (q2, _) \<Rightarrow> (q2, None)))"

lemmas [op_defs] =
  newDelayingQueue_def NewDelayingQueueWithCustomQueue_def NewDelayingQueueWithCustomClock_def
  NewNamedDelayingQueue_def NewDelayingQueue_def delaying_Len_def delaying_ShutDown_def
  delaying_Add_def delaying_Get_def delaying_Done_def AddAfter_check_def AddAfter_enter_def
  AddAfter_send_def AddAfter_def

section \<open>The delaying queue is a work queue\<close>

definition d_inv :: "'a delayingType \<Rightarrow> bool" where
  [inv_defs]: "d_inv q \<longleftrightarrow> q_inv (Interface q) \<and> waiting_inv (waiting q) \<and>
     (stopOnce q \<longrightarrow> shuttingDown (Interface q) \<and> stopCh (waiting q))"

lemma d_inv_new [simp]: "d_inv (NewNamedDelayingQueue f z name)"
  by (simp add: d_inv_def NewNamedDelayingQueue_def NewDelayingQueueWithCustomClock_def
      newDelayingQueue_def)

interpretation dwq: embedded_queue
  "\<lambda>x q. fst (Add now x q)" "Get now" "\<lambda>x q. fst (Done now x q)" "\<lambda>q. fst (ShutDown q)"
  Len ShuttingDown queue processing q_again q_inv
  Interface "delaying_Add now" "delaying_Get now" "delaying_Done now" delaying_ShutDown delaying_Len d_inv
  for now :: time
proof (unfold_locales, goal_cases)
  case (3 d r q)
  then show ?case by (auto simp: delaying_Get_def intro!: exI [of _ "d\<lparr>Interface := q\<rparr>"])
next
  case (8 d x)
  then show ?case by (simp add: d_inv_def delaying_Add_def q_inv_Add)
next
  case (9 d r d')
  with q_inv_Get [of "Interface d" now] Get_Cons_fields(5) [of "Interface d" _ _ now]
    Get_empty [of "Interface d" now] show ?case
    by (cases "queue (Interface d)") (auto simp: d_inv_def delaying_Get_def split_beta)
next
  case (11 d)
  then show ?case by (simp add: d_inv_def delaying_ShutDown_def wq.invar_stop)
qed (auto simp: d_inv_def delaying_Add_def delaying_Done_def delaying_ShutDown_def delaying_Len_def
    ShuttingDown_def q_inv_Done)

section \<open>The system\<close>

record 'a dsys =
  dq :: "'a delayingType"
  lpc :: loop_pc
  clk :: time
  senders :: "'a sender multiset"
  trace :: "'a event list"

text \<open>What clients of the embedded queue do to it, \<open>ShutDownWithDrain\<close> included.\<close>

inductive client_step :: "time \<Rightarrow> 'a Type \<Rightarrow> 'a Type \<Rightarrow> bool" for now where
  client_Add: "client_step now q (fst (Add now x q))"
| client_Get: "client_step now q (snd (Get now q))"
| client_Done: "x \<in> processing q \<Longrightarrow> client_step now q (fst (Done now x q))"
| client_drain: "client_step now q (setDrain True q)"
| client_shutdown: "client_step now q (fst (shutdown q))"

definition parked_at :: "'a sender option \<Rightarrow> 'a sender multiset" where
  "parked_at p = (case p of None \<Rightarrow> {#} | Some x \<Rightarrow> {#x#})"

inductive dq_step :: "'a dsys \<Rightarrow> 'a dsys \<Rightarrow> bool" where
  dq_tick: "clk s \<le> c \<Longrightarrow> dq_step s (s\<lparr>clk := c\<rparr>)"
| dq_loop: "loop_step (\<lambda>now x q. fst (Add now x q)) ShuttingDown (clk s)
      (waiting (dq s), Interface (dq s), lpc s) ev (w, q, pc) \<Longrightarrow>
    dq_step s (s\<lparr>dq := (dq s)\<lparr>waiting := w, Interface := q\<rparr>, lpc := pc, trace := trace s @ ev\<rparr>)"
| dq_check: "AddAfter_check x d (dq s) = (q, p) \<Longrightarrow>
    dq_step s (s\<lparr>dq := q, senders := senders s + parked_at p\<rparr>)"
| dq_enter: "senders s = add_mset (Checked x d) M \<Longrightarrow> AddAfter_enter (clk s) x d (dq s) = (q, p) \<Longrightarrow>
    dq_step s (s\<lparr>dq := q, senders := M + parked_at p\<rparr>)"
| dq_send: "senders s = add_mset (Sending x t) M \<Longrightarrow> can_send (waiting (dq s)) \<Longrightarrow>
    dq_step s (s\<lparr>dq := AddAfter_send x t (dq s), senders := M, trace := trace s @ [Accepted x t]\<rparr>)"
| dq_stop: "senders s = add_mset (Sending x t) M \<Longrightarrow> stopCh (waiting (dq s)) \<Longrightarrow>
    dq_step s (s\<lparr>senders := M\<rparr>)"
| dq_client: "client_step (clk s) (Interface (dq s)) q \<Longrightarrow>
    dq_step s (s\<lparr>dq := (dq s)\<lparr>Interface := q\<rparr>\<rparr>)"
| dq_shutdown: "dq_step s (s\<lparr>dq := delaying_ShutDown (dq s)\<rparr>)"

definition dq_init :: "queueMetricsFactory \<Rightarrow> 'a waitFor \<Rightarrow> string \<Rightarrow> time \<Rightarrow> 'a dsys" where
  "dq_init f z name now =
     \<lparr>dq = NewNamedDelayingQueue f z name, lpc = LoopTop, clk = now, senders = {#}, trace = []\<rparr>"

inductive dq_steps :: "'a dsys \<Rightarrow> 'a dsys \<Rightarrow> bool" where
  dq_steps_refl: "dq_steps s s"
| dq_steps_snoc: "dq_steps s s' \<Longrightarrow> dq_step s' s'' \<Longrightarrow> dq_steps s s''"

definition dq_reachable :: "'a dsys \<Rightarrow> bool" where
  "dq_reachable s \<longleftrightarrow> (\<exists>f z name now. dq_steps (dq_init f z name now) s)"

section \<open>Invariants of the system\<close>

definition clock_inv :: "'a dsys \<Rightarrow> bool" where
  "clock_inv s \<longleftrightarrow> (\<forall>now. lpc s = LoopReady now \<longrightarrow> now \<le> clk s) \<and>
     (\<forall>d now. Fired d now \<in> set (trace s) \<longrightarrow> now \<le> clk s)"

definition timer_inv :: "'a dsys \<Rightarrow> bool" where
  "timer_inv s \<longleftrightarrow> (\<forall>dl. lpc s = LoopSelect dl \<longrightarrow>
     (dl = None \<longleftrightarrow> due_at (waiting (dq s)) = Map.empty))"

definition stop_inv :: "'a dsys \<Rightarrow> bool" where
  "stop_inv s \<longleftrightarrow> (stopCh (waiting (dq s)) \<longrightarrow> shuttingDown (Interface (dq s))) \<and>
     (heartbeat (waiting (dq s)) \<longleftrightarrow> \<not> stopCh (waiting (dq s))) \<and>
     (lpc s = LoopExited \<longrightarrow> shuttingDown (Interface (dq s)))"

definition dq_inv :: "'a dsys \<Rightarrow> bool" where
  "dq_inv s \<longleftrightarrow> d_inv (dq s) \<and> history_inv (trace s) (waiting (dq s)) \<and>
     clock_inv s \<and> timer_inv s \<and> stop_inv s"

lemmas dq_inv_defs = dq_inv_def clock_inv_def timer_inv_def stop_inv_def

lemma dq_inv_init: "dq_inv (dq_init f z name now)"
proof -
  have "waiting (NewNamedDelayingQueue f z name) = new_waiting z"
    by (simp add: NewNamedDelayingQueue_def NewDelayingQueueWithCustomClock_def newDelayingQueue_def)
  then show ?thesis
    by (simp add: dq_inv_defs dq_init_def history_inv_new) (simp add: new_waiting_def)
qed

lemma client_step_keeps:
  assumes "client_step now q q'" and "q_inv q"
  shows "q_inv q' \<and> (shuttingDown q \<longrightarrow> shuttingDown q')"
  using assms
proof cases
  case client_Get
  then show ?thesis using assms(2) q_inv_Get [of q now] Get_Cons_fields(5) [of q _ _ now]
      Get_empty [of q now] by (cases "queue q") auto
qed (auto simp: q_inv_ops)

lemma dq_inv_loop:
  assumes step: "loop_step (\<lambda>now x q. fst (Add now x q)) ShuttingDown (clk s)
      (waiting (dq s), Interface (dq s), lpc s) ev (w, q, pc)" and inv: "dq_inv s"
  shows "dq_inv (s\<lparr>dq := (dq s)\<lparr>waiting := w, Interface := q\<rparr>, lpc := pc, trace := trace s @ ev\<rparr>)"
proof -
  have h: "history_inv (trace s @ ev) w"
    using history_inv_loop_step [OF step] inv by (simp add: dq_inv_def)
  then have "waiting_inv w" by (simp add: history_inv_def)
  note F = loop_step_frame [OF step]
  have q: "q_inv q" "shuttingDown q = shuttingDown (Interface (dq s))"
    using F inv by (auto simp: dq_inv_def d_inv_def q_inv_Add)
  have c: "now \<le> clk s" if "lpc s = LoopReady now" for now
    using inv that by (simp add: dq_inv_defs)
  have t: "dl = None \<longleftrightarrow> due_at w = Map.empty" if "pc = LoopSelect dl" for dl
    using loop_step_timer step inv that by (fastforce simp: dq_inv_def d_inv_def)
  have "stop_inv s" "d_inv (dq s)" "clock_inv s" using inv by (auto simp: dq_inv_def)
  then show ?thesis
    using h q F loop_step_clock [OF step c] t \<open>waiting_inv w\<close>
    by (auto simp: dq_inv_defs d_inv_def ShuttingDown_def)
qed

lemma dq_inv_send:
  assumes "dq_inv s"
  shows "dq_inv (s\<lparr>dq := AddAfter_send x t (dq s), senders := M, trace := trace s @ [Accepted x t]\<rparr>)"
proof -
  have w: "waiting_inv (waiting (dq s))" and h: "history_inv (trace s) (waiting (dq s))"
    using assms by (auto simp: dq_inv_def d_inv_def)
  have "stopCh (send x t w) = stopCh w" "heartbeat (send x t w) = heartbeat w" for w :: "'a waiting"
    by (simp_all add: send_def Let_def)
  with assms history_inv_send [OF h] send_effect [OF w] show ?thesis
    by (auto simp: dq_inv_defs d_inv_def AddAfter_send_def)
qed

lemma dq_inv_queue:
  assumes "dq_inv s" and "d_inv q" and "waiting q = waiting (dq s)"
    and "shuttingDown (Interface (dq s)) \<Longrightarrow> shuttingDown (Interface q)"
  shows "dq_inv (s\<lparr>dq := q, senders := M\<rparr>)"
  using assms by (simp add: dq_inv_defs)

lemma dq_inv_step:
  assumes "dq_step s s'" and "dq_inv s"
  shows "dq_inv s'"
  using assms
proof cases
  case (dq_tick c)
  with assms(2) show ?thesis by (fastforce simp: dq_inv_defs)
next
  case (dq_loop ev w q pc)
  with assms(2) show ?thesis by (simp add: dq_inv_loop)
next
  case (dq_check x d q p)
  have "d_inv q \<and> waiting q = waiting (dq s) \<and> Interface q = Interface (dq s)"
    using dq_check(2) assms(2) by (auto simp: dq_inv_def d_inv_def AddAfter_check_def split: if_splits)
  with dq_check(1) dq_inv_queue [OF assms(2)] show ?thesis by simp
next
  case (dq_enter x d M q p)
  have "d_inv q \<and> waiting q = waiting (dq s) \<and> shuttingDown (Interface q) = shuttingDown (Interface (dq s))"
    using dq_enter(3) assms(2)
    by (auto simp: dq_inv_def d_inv_def AddAfter_enter_def delaying_Add_def q_inv_Add split: if_splits)
  with dq_enter(1) dq_inv_queue [OF assms(2)] show ?thesis by simp
next
  case (dq_send x t M)
  with assms(2) show ?thesis by (simp add: dq_inv_send)
next
  case (dq_client q)
  with assms(2) client_step_keeps [OF dq_client(2)] show ?thesis
    by (auto simp: dq_inv_defs d_inv_def)
next
  case dq_shutdown
  with dq_shutdown assms(2) show ?thesis
    by (auto simp: dq_inv_defs d_inv_def delaying_ShutDown_def wq.invar_stop)
qed (auto simp: dq_inv_defs)

lemma dq_steps_inv: "dq_steps s s' \<Longrightarrow> dq_inv s \<Longrightarrow> dq_inv s'"
  by (induction rule: dq_steps.induct) (auto intro: dq_inv_step)

lemma dq_reachable_inv: "dq_reachable s \<Longrightarrow> dq_inv s"
  by (auto simp: dq_reachable_def intro: dq_steps_inv dq_inv_init)

end
