(* ===== verification/Go_Float.thy ===== *)
theory Go_Float
  imports Prelude "HOL-Library.Log_Nat"
begin

text \<open>
  The part of Go's \<open>float64\<close> arithmetic that the exponential back-off uses: the conversion of an
  \<open>int64\<close>, a power of two, a product with it, a comparison, and the conversion back. All finite
  values that occur are integers, so that a value is an integer, an infinity or not a number.
\<close>

datatype float64 = Fin int | PInf | NInf | NaN

text \<open>\<open>float64(n)\<close>: the nearest value with 53 significant bits, ties to even.\<close>

definition round53 :: "nat \<Rightarrow> nat" where
  "round53 n =
     (if n < 2 ^ 53 then n
      else let k = floorlog 2 n - 53;
               q = n div 2 ^ k;
               r = n mod 2 ^ k
           in if 2 * r > 2 ^ k \<or> (2 * r = 2 ^ k \<and> odd q) then (q + 1) * 2 ^ k else q * 2 ^ k)"

definition float_of_int :: "int \<Rightarrow> float64" where
  "float_of_int n = Fin (if n < 0 then - int (round53 (nat (- n))) else int (round53 (nat n)))"

definition overflow :: "int \<Rightarrow> float64" where
  "overflow n = (if n \<ge> 2 ^ 1024 then PInf else if n \<le> - (2 ^ 1024) then NInf else Fin n)"

text \<open>\<open>math.Pow(2, float64(e))\<close> is exact up to the exponent 1023 and infinite beyond.\<close>

definition pow2 :: "nat \<Rightarrow> float64" where
  "pow2 e = (if e < 1024 then Fin (2 ^ e) else PInf)"

text \<open>A product with a power of two is exact unless it overflows; zero times infinity is \<open>NaN\<close>.\<close>

fun mul_pow2 :: "float64 \<Rightarrow> float64 \<Rightarrow> float64" where
  "mul_pow2 (Fin a) (Fin b) = overflow (a * b)"
| "mul_pow2 (Fin a) PInf = (if a = 0 then NaN else if a > 0 then PInf else NInf)"
| "mul_pow2 _ _ = NaN"

text \<open>\<open>x > y\<close>; every comparison with \<open>NaN\<close> is false.\<close>

fun float_gt :: "float64 \<Rightarrow> float64 \<Rightarrow> bool" where
  "float_gt (Fin a) (Fin b) \<longleftrightarrow> a > b"
| "float_gt PInf (Fin b) \<longleftrightarrow> True"
| "float_gt PInf NInf \<longleftrightarrow> True"
| "float_gt (Fin a) NInf \<longleftrightarrow> True"
| "float_gt _ _ \<longleftrightarrow> False"

text \<open>
  \<open>int64(x)\<close>: when the value does not fit, the language specification leaves the result to the
  implementation; \<open>cvt\<close> stands for it. On amd64 it is always the smallest integer.
\<close>

fun int64_of_float :: "(float64 \<Rightarrow> int) \<Rightarrow> float64 \<Rightarrow> int" where
  "int64_of_float cvt (Fin a) = (if in_int64 a then a else cvt (Fin a))"
| "int64_of_float cvt x = cvt x"

definition cvt_amd64 :: "float64 \<Rightarrow> int" where
  "cvt_amd64 x = min_int64"

lemma float_of_small: "0 \<le> n \<Longrightarrow> n < 2 ^ 53 \<Longrightarrow> float_of_int n = Fin n"
  by (auto simp: float_of_int_def round53_def nat_less_iff)

text \<open>The constant \<open>math.MaxInt64\<close> becomes the float \<open>2 ^ 63\<close>, one more than the constant.\<close>

lemma max_int64_rounds: "float_of_int max_int64 = Fin (2 ^ 63)"
proof -
  have "floorlog 2 (9223372036854775807 :: nat) = 63"
    by (simp add: compute_floorlog)
  then show ?thesis by (simp add: float_of_int_def round53_def max_int64_def Let_def)
qed

end
