(* ===== verification/Rate_Limiters.thy ===== *)
theory Rate_Limiters
  imports Go_Float
begin

text \<open>
  The rate limiters (\<open>pkg/workqueue/default_rate_limiters.go\<close>). The implementations of the Go
  interface \<open>RateLimiter\<close> are the constructors of a datatype; \<open>When\<close> returns the delay and the limiter
  with its counters updated. Every method of a limiter with state holds its lock throughout.

  Two things come from outside: the token bucket of \<open>golang.org/x/time/rate\<close> (a state of type \<open>'b\<close>
  and the function \<open>reserve\<close> for \<open>Reserve().Delay()\<close>), and the conversion \<open>cvt\<close> of floats that do
  not fit into an \<open>int64\<close>.
\<close>

section \<open>Limiters\<close>

datatype ('a, 'b) RateLimiter =
    BucketRateLimiter 'b
  | ItemExponentialFailureRateLimiter "'a \<rightharpoonup> nat" duration duration
  | ItemFastSlowRateLimiter "'a \<rightharpoonup> nat" int duration duration
  | MaxOfRateLimiter "('a, 'b) RateLimiter list"
  | WithMaxWaitRateLimiter "('a, 'b) RateLimiter" duration

text \<open>Reading a missing key of a Go map of integers gives 0.\<close>

definition failures_of :: "('a \<rightharpoonup> nat) \<Rightarrow> 'a \<Rightarrow> nat" where
  "failures_of failures item = (case failures item of None \<Rightarrow> 0 | Some n \<Rightarrow> n)"

definition NewItemExponentialFailureRateLimiter :: "duration \<Rightarrow> duration \<Rightarrow> ('a, 'b) RateLimiter" where
  "NewItemExponentialFailureRateLimiter baseDelay maxDelay =
     ItemExponentialFailureRateLimiter Map.empty baseDelay maxDelay"

definition NewItemFastSlowRateLimiter :: "duration \<Rightarrow> duration \<Rightarrow> int \<Rightarrow> ('a, 'b) RateLimiter" where
  "NewItemFastSlowRateLimiter fastDelay slowDelay maxFastAttempts =
     ItemFastSlowRateLimiter Map.empty maxFastAttempts fastDelay slowDelay"

definition NewMaxOfRateLimiter :: "('a, 'b) RateLimiter list \<Rightarrow> ('a, 'b) RateLimiter" where
  "NewMaxOfRateLimiter limiters = MaxOfRateLimiter limiters"

definition NewWithMaxWaitRateLimiter :: "('a, 'b) RateLimiter \<Rightarrow> duration \<Rightarrow> ('a, 'b) RateLimiter" where
  "NewWithMaxWaitRateLimiter limiter maxDelay = WithMaxWaitRateLimiter limiter maxDelay"

definition DefaultItemBasedRateLimiter :: "('a, 'b) RateLimiter" where
  "DefaultItemBasedRateLimiter =
     NewItemExponentialFailureRateLimiter millisecond (1000 * second)"

definition DefaultControllerRateLimiter :: "'b \<Rightarrow> ('a, 'b) RateLimiter" where
  "DefaultControllerRateLimiter bucket =
     NewMaxOfRateLimiter
       [NewItemExponentialFailureRateLimiter (5 * millisecond) (1000 * second),
        BucketRateLimiter bucket]"

section \<open>Operations\<close>

text \<open>The delay of the exponential limiter after \<open>expo\<close> failures.\<close>

definition exponential_delay :: "(float64 \<Rightarrow> int) \<Rightarrow> duration \<Rightarrow> duration \<Rightarrow> nat \<Rightarrow> duration" where
  "exponential_delay cvt baseDelay maxDelay expo =
     (let backoff = mul_pow2 (float_of_int baseDelay) (pow2 expo)
      in if float_gt backoff (float_of_int max_int64) then maxDelay
         else let calculated = int64_of_float cvt backoff
              in if calculated > maxDelay then maxDelay else calculated)"

text \<open>The methods of the implementations, one by one.\<close>

definition bucket_When :: "('b \<Rightarrow> duration \<times> 'b) \<Rightarrow> 'b \<Rightarrow> duration \<times> 'b" where
  [simp]: "bucket_When reserve b = reserve b"

definition exponential_When ::
    "(float64 \<Rightarrow> int) \<Rightarrow> 'a \<Rightarrow> ('a \<rightharpoonup> nat) \<Rightarrow> duration \<Rightarrow> duration \<Rightarrow> duration \<times> ('a \<rightharpoonup> nat)" where
  [simp]: "exponential_When cvt item failures baseDelay maxDelay =
     (let expo = failures_of failures item
      in (exponential_delay cvt baseDelay maxDelay expo, failures(item \<mapsto> expo + 1)))"

definition fastslow_When ::
    "'a \<Rightarrow> ('a \<rightharpoonup> nat) \<Rightarrow> int \<Rightarrow> duration \<Rightarrow> duration \<Rightarrow> duration \<times> ('a \<rightharpoonup> nat)" where
  [simp]: "fastslow_When item failures maxFastAttempts fastDelay slowDelay =
     (let failures' = failures(item \<mapsto> failures_of failures item + 1)
      in (if int (failures_of failures' item) \<le> maxFastAttempts then fastDelay else slowDelay,
          failures'))"

definition maxwait_When :: "duration \<Rightarrow> duration \<Rightarrow> duration" where
  [simp]: "maxwait_When delay maxDelay = (if delay > maxDelay then maxDelay else delay)"

definition bucket_NumRequeues :: "'b \<Rightarrow> nat" where
  [simp]: "bucket_NumRequeues b = 0"

definition exponential_NumRequeues :: "'a \<Rightarrow> ('a \<rightharpoonup> nat) \<Rightarrow> nat" where
  [simp]: "exponential_NumRequeues item failures = failures_of failures item"

definition fastslow_NumRequeues :: "'a \<Rightarrow> ('a \<rightharpoonup> nat) \<Rightarrow> nat" where
  [simp]: "fastslow_NumRequeues item failures = failures_of failures item"

definition bucket_Forget :: "'b \<Rightarrow> 'b" where
  [simp]: "bucket_Forget b = b"

definition exponential_Forget :: "'a \<Rightarrow> ('a \<rightharpoonup> nat) \<Rightarrow> ('a \<rightharpoonup> nat)" where
  [simp]: "exponential_Forget item failures = failures(item := None)"

definition fastslow_Forget :: "'a \<Rightarrow> ('a \<rightharpoonup> nat) \<Rightarrow> ('a \<rightharpoonup> nat)" where
  [simp]: "fastslow_Forget item failures = failures(item := None)"

text \<open>The calls through the interface.\<close>

fun When ::
    "(float64 \<Rightarrow> int) \<Rightarrow> ('b \<Rightarrow> duration \<times> 'b) \<Rightarrow> 'a \<Rightarrow> ('a, 'b) RateLimiter \<Rightarrow> duration \<times> ('a, 'b) RateLimiter"
  and When_max ::
    "(float64 \<Rightarrow> int) \<Rightarrow> ('b \<Rightarrow> duration \<times> 'b) \<Rightarrow> 'a \<Rightarrow> duration \<Rightarrow> ('a, 'b) RateLimiter list \<Rightarrow>
      duration \<times> ('a, 'b) RateLimiter list"
where
  "When cvt reserve item (BucketRateLimiter b) =
     (case bucket_When reserve b of (d, b') \<Rightarrow> (d, BucketRateLimiter b'))"
| "When cvt reserve item (ItemExponentialFailureRateLimiter failures baseDelay maxDelay) =
     (case exponential_When cvt item failures baseDelay maxDelay of
        (d, failures') \<Rightarrow> (d, ItemExponentialFailureRateLimiter failures' baseDelay maxDelay))"
| "When cvt reserve item (ItemFastSlowRateLimiter failures maxFastAttempts fastDelay slowDelay) =
     (case fastslow_When item failures maxFastAttempts fastDelay slowDelay of
        (d, failures') \<Rightarrow> (d, ItemFastSlowRateLimiter failures' maxFastAttempts fastDelay slowDelay))"
| "When cvt reserve item (MaxOfRateLimiter limiters) =
     (case When_max cvt reserve item 0 limiters of (ret, limiters') \<Rightarrow> (ret, MaxOfRateLimiter limiters'))"
| "When cvt reserve item (WithMaxWaitRateLimiter limiter maxDelay) =
     (case When cvt reserve item limiter of
        (delay, limiter') \<Rightarrow> (maxwait_When delay maxDelay, WithMaxWaitRateLimiter limiter' maxDelay))"
| "When_max cvt reserve item ret [] = (ret, [])"
| "When_max cvt reserve item ret (limiter # limiters) =
     (case When cvt reserve item limiter of
        (cur, limiter') \<Rightarrow>
          (case When_max cvt reserve item (if cur > ret then cur else ret) limiters of
             (ret', limiters') \<Rightarrow> (ret', limiter' # limiters')))"

fun NumRequeues :: "'a \<Rightarrow> ('a, 'b) RateLimiter \<Rightarrow> nat"
  and NumRequeues_max :: "'a \<Rightarrow> nat \<Rightarrow> ('a, 'b) RateLimiter list \<Rightarrow> nat"
where
  "NumRequeues item (BucketRateLimiter b) = bucket_NumRequeues b"
| "NumRequeues item (ItemExponentialFailureRateLimiter failures baseDelay maxDelay) =
     exponential_NumRequeues item failures"
| "NumRequeues item (ItemFastSlowRateLimiter failures maxFastAttempts fastDelay slowDelay) =
     fastslow_NumRequeues item failures"
| "NumRequeues item (MaxOfRateLimiter limiters) = NumRequeues_max item 0 limiters"
| "NumRequeues item (WithMaxWaitRateLimiter limiter maxDelay) = NumRequeues item limiter"
| "NumRequeues_max item ret [] = ret"
| "NumRequeues_max item ret (limiter # limiters) =
     (let cur = NumRequeues item limiter
      in NumRequeues_max item (if cur > ret then cur else ret) limiters)"

fun Forget :: "'a \<Rightarrow> ('a, 'b) RateLimiter \<Rightarrow> ('a, 'b) RateLimiter"
where
  "Forget item (BucketRateLimiter b) = BucketRateLimiter (bucket_Forget b)"
| "Forget item (ItemExponentialFailureRateLimiter failures baseDelay maxDelay) =
     ItemExponentialFailureRateLimiter (exponential_Forget item failures) baseDelay maxDelay"
| "Forget item (ItemFastSlowRateLimiter failures maxFastAttempts fastDelay slowDelay) =
     ItemFastSlowRateLimiter (fastslow_Forget item failures) maxFastAttempts fastDelay slowDelay"
| "Forget item (MaxOfRateLimiter limiters) = MaxOfRateLimiter (map (Forget item) limiters)"
| "Forget item (WithMaxWaitRateLimiter limiter maxDelay) =
     WithMaxWaitRateLimiter (Forget item limiter) maxDelay"

section \<open>The exponential limiter\<close>

text \<open>
  Below \<open>2 ^ 53\<close> nanoseconds (more than a hundred days) the base delay is exact, and the delay is
  the capped exponential, except where the product is exactly \<open>2 ^ 63\<close>: it passes the comparison
  with \<open>math.MaxInt64\<close> and does not fit into an \<open>int64\<close>.
\<close>

lemma backoff_exact:
  assumes "0 < b" and "b < 2 ^ 53"
  shows "mul_pow2 (float_of_int b) (pow2 n) =
    (if n < 1024 then overflow (b * 2 ^ n) else PInf)"
  using assms by (simp add: float_of_small pow2_def)

lemma big_power:
  assumes "0 < (b :: int)" and "1024 \<le> n"
  shows "2 ^ 63 < b * 2 ^ n"
proof -
  have "(2 :: int) ^ 63 < 2 ^ n" by (rule power_strict_increasing) (use assms in auto)
  also have "\<dots> \<le> b * 2 ^ n" using assms by simp
  finally show ?thesis .
qed

lemma exponential_delay_exact:
  assumes "0 < b" and "b < 2 ^ 53" and "maxDelay \<le> max_int64"
  shows "exponential_delay cvt b maxDelay n =
    (if b * 2 ^ n = 2 ^ 63 then min (cvt (Fin (2 ^ 63))) maxDelay else min (b * 2 ^ n) maxDelay)"
proof -
  let ?v = "b * 2 ^ n"
  have pos: "0 < ?v" using assms(1) by simp
  have big: "2 ^ 63 < ?v" if "\<not> n < 1024" using big_power [OF assms(1)] that by simp
  consider "2 ^ 63 < ?v" | "?v = 2 ^ 63" "n < 1024" | "?v < 2 ^ 63" "n < 1024"
    using big by fastforce
  then show ?thesis
  proof cases
    case 1
    then have "float_gt (mul_pow2 (float_of_int b) (pow2 n)) (Fin (2 ^ 63))"
      unfolding backoff_exact [OF assms(1,2)] by (simp add: overflow_def)
    with 1 assms(3) show ?thesis
      unfolding exponential_delay_def max_int64_rounds by (simp add: max_int64_def min_def)
  next
    case 2
    then have "mul_pow2 (float_of_int b) (pow2 n) = Fin (2 ^ 63)"
      unfolding backoff_exact [OF assms(1,2)] by (simp add: overflow_def)
    with 2 show ?thesis
      unfolding exponential_delay_def max_int64_rounds
      by (simp add: in_int64_def max_int64_def min_def Let_def)
  next
    case 3
    then have "mul_pow2 (float_of_int b) (pow2 n) = Fin ?v"
      unfolding backoff_exact [OF assms(1,2)] using pos by (simp add: overflow_def)
    with 3 pos show ?thesis
      unfolding exponential_delay_def max_int64_rounds
      by (simp add: in_int64_def max_int64_def min_int64_def min_def Let_def)
  qed
qed

text \<open>A base delay with an odd factor never meets the exception.\<close>

lemma no_collision:
  assumes "5 dvd (b :: int)"
  shows "b * 2 ^ n \<noteq> 2 ^ 63"
proof
  assume "b * 2 ^ n = 2 ^ 63"
  with dvd_mult2 [OF assms, of "2 ^ n"] have "5 dvd (2 ^ 63 :: int)" by simp
  then show False by simp
qed

section \<open>Counting\<close>

text \<open>
  What a limiter promises about its counters: \<open>Forget\<close> resets the item, \<open>When\<close> counts one more, and
  neither touches another item. A limiter without a counting part always answers 0.
\<close>

locale retry_counter =
  fixes bump :: "'a \<Rightarrow> 's \<Rightarrow> 's"
    and forget :: "'a \<Rightarrow> 's \<Rightarrow> 's"
    and num :: "'a \<Rightarrow> 's \<Rightarrow> nat"
    and counting :: "'s \<Rightarrow> bool"
  assumes num_forget: "num y (forget x s) = (if y = x then 0 else num y s)"
    and num_bump: "num y (bump x s) = (if y = x \<and> counting s then Suc (num y s) else num y s)"
    and counting_bump: "counting (bump x s) = counting s"
    and counting_forget: "counting (forget x s) = counting s"
    and num_not_counting: "\<not> counting s \<Longrightarrow> num x s = 0"
begin

lemma counting_bumps: "counting ((bump x ^^ k) s) = counting s"
  by (induction k) (simp_all add: counting_bump)

lemma num_bumps: "counting s \<Longrightarrow> num x ((bump x ^^ k) s) = num x s + k"
  by (induction k) (simp_all add: num_bump counting_bumps)

lemma num_since_forget: "counting s \<Longrightarrow> num x ((bump x ^^ k) (forget x s)) = k"
  by (simp add: num_bumps counting_forget num_forget)

end

fun counts :: "('a, 'b) RateLimiter \<Rightarrow> bool" where
  "counts (BucketRateLimiter b) \<longleftrightarrow> False"
| "counts (ItemExponentialFailureRateLimiter failures baseDelay maxDelay) \<longleftrightarrow> True"
| "counts (ItemFastSlowRateLimiter failures maxFastAttempts fastDelay slowDelay) \<longleftrightarrow> True"
| "counts (MaxOfRateLimiter limiters) \<longleftrightarrow> (\<exists>l \<in> set limiters. counts l)"
| "counts (WithMaxWaitRateLimiter limiter maxDelay) \<longleftrightarrow> counts limiter"

lemma failures_of_upd [simp]:
  "failures_of (f(x \<mapsto> n)) y = (if y = x then n else failures_of f y)"
  "failures_of (f(x := None)) y = (if y = x then 0 else failures_of f y)"
  "failures_of Map.empty y = 0"
  by (simp_all add: failures_of_def)

lemma NumRequeues_max_acc:
  "NumRequeues_max x ret ls = max ret (NumRequeues_max x 0 ls)"
proof (induction ls arbitrary: ret)
  case (Cons l ls)
  let ?n = "NumRequeues x l"
  from Cons [of "if ?n > ret then ?n else ret"] Cons [of "if ?n > 0 then ?n else 0"]
  show ?case by (simp add: Let_def max_def)
qed simp

lemma NumRequeues_max_Cons [simp]:
  "NumRequeues_max x ret (l # ls) = max ret (max (NumRequeues x l) (NumRequeues_max x 0 ls))"
  using NumRequeues_max_acc [of x ret "l # ls"] NumRequeues_max_acc [of x "NumRequeues x l" ls]
  by (simp add: Let_def split: if_splits)

declare NumRequeues_max.simps(2) [simp del]

lemma not_counting: "\<not> counts r \<Longrightarrow> NumRequeues x r = 0"
proof (induction r rule: counts.induct)
  case (4 ls)
  then have "NumRequeues_max x 0 ls = 0" by (induction ls) auto
  then show ?case by simp
qed auto

lemma not_counting_all: "\<forall>l \<in> set ls. \<not> counts l \<Longrightarrow> NumRequeues_max x 0 ls = 0"
  by (induction ls) (auto simp: not_counting)

lemma counts_When:
  fixes r :: "('a, 'b) RateLimiter" and ls :: "('a, 'b) RateLimiter list"
  shows "counts (snd (When cvt reserve x r)) = counts r"
    and "(\<exists>l \<in> set (snd (When_max cvt reserve x ret ls)). counts l) = (\<exists>l \<in> set ls. counts l)"
  by (induction cvt reserve x r and cvt reserve x ret ls rule: When_When_max.induct)
    (auto simp: Let_def split: prod.splits)

lemma NumRequeues_When:
  fixes r :: "('a, 'b) RateLimiter" and ls :: "('a, 'b) RateLimiter list"
  shows "NumRequeues y (snd (When cvt reserve x r)) =
      (if y = x \<and> counts r then Suc (NumRequeues y r) else NumRequeues y r)"
    and "NumRequeues_max y 0 (snd (When_max cvt reserve x ret ls)) =
      (if y = x \<and> (\<exists>l \<in> set ls. counts l) then Suc (NumRequeues_max y 0 ls)
       else NumRequeues_max y 0 ls)"
  by (induction cvt reserve x r and cvt reserve x ret ls rule: When_When_max.induct)
    (auto simp: Let_def not_counting not_counting_all split: prod.splits)

lemma NumRequeues_Forget:
  "NumRequeues y (Forget x r) = (if y = x then 0 else NumRequeues y r)"
proof (induction x r rule: Forget.induct)
  case (4 x ls)
  then have "NumRequeues_max y 0 (map (Forget x) ls) = (if y = x then 0 else NumRequeues_max y 0 ls)"
    by (induction ls) auto
  then show ?case by simp
qed auto

lemma counts_Forget: "counts (Forget x r) = counts r"
  by (induction x r rule: Forget.induct) auto

interpretation limiter: retry_counter
  "\<lambda>x r. snd (When cvt reserve x r)" Forget NumRequeues counts
  for cvt :: "float64 \<Rightarrow> int" and reserve :: "'b \<Rightarrow> duration \<times> 'b"
  by unfold_locales (simp_all add: NumRequeues_Forget NumRequeues_When counts_When counts_Forget not_counting)

end
