(* ===== verification/Rate_Limiting_Queue.thy ===== *)
theory Rate_Limiting_Queue
  imports Delaying_Queue Rate_Limiters
begin

text \<open>
  The rate limiting queue (\<open>pkg/workqueue/rate_limiting_queue.go\<close>): a delaying queue and a rate
  limiter that says how long an item has to wait. It embeds the delaying queue, so that it is a
  work queue by the laws of embedding, and it meets the contract that the executor relies on.
\<close>

record ('a, 'b) rateLimitingType =
  DelayingInterface :: "'a delayingType"
  rateLimiter :: "('a, 'b) RateLimiter"

definition NewRateLimitingQueue ::
    "queueMetricsFactory \<Rightarrow> 'a waitFor \<Rightarrow> ('a, 'b) RateLimiter \<Rightarrow> ('a, 'b) rateLimitingType" where
  "NewRateLimitingQueue f z rl =
     \<lparr>DelayingInterface = NewDelayingQueue f z, rateLimiter = rl\<rparr>"

definition NewNamedRateLimitingQueue ::
    "queueMetricsFactory \<Rightarrow> 'a waitFor \<Rightarrow> ('a, 'b) RateLimiter \<Rightarrow> string \<Rightarrow> ('a, 'b) rateLimitingType" where
  "NewNamedRateLimitingQueue f z rl name =
     \<lparr>DelayingInterface = NewNamedDelayingQueue f z name, rateLimiter = rl\<rparr>"

definition AddRateLimited ::
    "(float64 \<Rightarrow> int) \<Rightarrow> ('b \<Rightarrow> duration \<times> 'b) \<Rightarrow> time \<Rightarrow> bool \<Rightarrow> 'a \<Rightarrow> ('a, 'b) rateLimitingType \<Rightarrow>
      ('a, 'b) rateLimitingType \<times> 'a sender option" where
  "AddRateLimited cvt reserve now pick item q =
     (case When cvt reserve item (rateLimiter q) of
        (d, rl) \<Rightarrow>
          (case AddAfter now pick item d (DelayingInterface q) of
             (d', blocked) \<Rightarrow> (q\<lparr>DelayingInterface := d', rateLimiter := rl\<rparr>, blocked)))"

definition queue_NumRequeues :: "'a \<Rightarrow> ('a, 'b) rateLimitingType \<Rightarrow> nat" where
  "queue_NumRequeues item q = NumRequeues item (rateLimiter q)"

definition queue_Forget :: "'a \<Rightarrow> ('a, 'b) rateLimitingType \<Rightarrow> ('a, 'b) rateLimitingType" where
  "queue_Forget item q = q\<lparr>rateLimiter := Forget item (rateLimiter q)\<rparr>"

text \<open>The promoted methods.\<close>

definition rl_Add :: "time \<Rightarrow> 'a \<Rightarrow> ('a, 'b) rateLimitingType \<Rightarrow> ('a, 'b) rateLimitingType" where
  "rl_Add now x q = q\<lparr>DelayingInterface := delaying_Add now x (DelayingInterface q)\<rparr>"

definition rl_Get ::
    "time \<Rightarrow> ('a, 'b) rateLimitingType \<Rightarrow> 'a get_result \<times> ('a, 'b) rateLimitingType" where
  "rl_Get now q =
     (case delaying_Get now (DelayingInterface q) of (r, d) \<Rightarrow> (r, q\<lparr>DelayingInterface := d\<rparr>))"

definition rl_Done :: "time \<Rightarrow> 'a \<Rightarrow> ('a, 'b) rateLimitingType \<Rightarrow> ('a, 'b) rateLimitingType" where
  "rl_Done now x q = q\<lparr>DelayingInterface := delaying_Done now x (DelayingInterface q)\<rparr>"

definition rl_ShutDown :: "('a, 'b) rateLimitingType \<Rightarrow> ('a, 'b) rateLimitingType" where
  "rl_ShutDown q = q\<lparr>DelayingInterface := delaying_ShutDown (DelayingInterface q)\<rparr>"

definition rl_Len :: "('a, 'b) rateLimitingType \<Rightarrow> nat" where
  "rl_Len q = delaying_Len (DelayingInterface q)"

definition rl_inv :: "('a, 'b) rateLimitingType \<Rightarrow> bool" where
  "rl_inv q \<longleftrightarrow> d_inv (DelayingInterface q) \<and> counts (rateLimiter q)"

lemmas [op_defs] =
  NewRateLimitingQueue_def NewNamedRateLimitingQueue_def AddRateLimited_def queue_NumRequeues_def
  queue_Forget_def rl_Add_def rl_Get_def rl_Done_def rl_ShutDown_def rl_Len_def

interpretation rlq: embedded_queue
  "delaying_Add now" "delaying_Get now" "delaying_Done now" delaying_ShutDown delaying_Len
  "\<lambda>d. ShuttingDown (Interface d)" "\<lambda>d. queue (Interface d)" "\<lambda>d. processing (Interface d)"
  "\<lambda>d. q_again (Interface d)" d_inv
  DelayingInterface "rl_Add now" "rl_Get now" "rl_Done now" rl_ShutDown rl_Len rl_inv
  for now :: time
proof (unfold_locales, goal_cases)
  case (3 d r q)
  then show ?case by (auto simp: rl_Get_def intro!: exI [of _ "d\<lparr>DelayingInterface := q\<rparr>"])
next
  case (8 d x)
  then show ?case by (simp add: rl_inv_def rl_Add_def dwq.promoted.invar_add)
next
  case (9 d r d')
  obtain r' e where "delaying_Get now (DelayingInterface d) = (r', e)" by fastforce
  with 9 dwq.o_invar_get [of "DelayingInterface d" now r' e] show ?case
    by (auto simp: rl_inv_def rl_Get_def)
next
  case (10 d x)
  then show ?case by (simp add: rl_inv_def rl_Done_def dwq.promoted.invar_fin)
next
  case (11 d)
  then show ?case by (simp add: rl_inv_def rl_ShutDown_def dwq.promoted.invar_stop)
qed (auto simp: rl_inv_def rl_Add_def rl_Done_def rl_ShutDown_def rl_Len_def)

text \<open>What the waiting loop does to the queue between two calls of a client.\<close>

definition rl_arrive :: "('a, 'b) rateLimitingType \<Rightarrow> ('a, 'b) rateLimitingType \<Rightarrow> bool" where
  "rl_arrive q q' \<longleftrightarrow>
     (\<exists>c pc ev w i pc'.
        loop_step (\<lambda>now x q. fst (Add now x q)) ShuttingDown c
          (waiting (DelayingInterface q), Interface (DelayingInterface q), pc) ev (w, i, pc') \<and>
        q' = q\<lparr>DelayingInterface := (DelayingInterface q)\<lparr>waiting := w, Interface := i\<rparr>\<rparr>)"

lemma AddAfter_cases:
  obtains (unchanged) w n where "fst (AddAfter now pick x d q) = q\<lparr>waiting := w, retries := n\<rparr>"
      "stopCh w = stopCh (waiting q)" "waiting_inv (waiting q) \<Longrightarrow> waiting_inv w"
    | (added) n where "fst (AddAfter now pick x d q) =
        q\<lparr>Interface := fst (Add now x (Interface q)), retries := n\<rparr>"
proof -
  let ?w = "waiting q" and ?n = "retry (retries q)" and ?s = "send x (now + d) (waiting q)"
  have s: "stopCh ?s = stopCh ?w" "waiting_inv ?w \<Longrightarrow> waiting_inv ?s"
    by (simp add: send_def Let_def) (rule send_effect)
  consider "shuttingDown (Interface q)" | "\<not> shuttingDown (Interface q)" "d \<le> 0"
    | "\<not> shuttingDown (Interface q)" "0 < d" by fastforce
  then show thesis
  proof cases
    case 1
    then show thesis
      by (intro unchanged [where w = ?w and n = "retries q"])
        (simp_all add: AddAfter_def AddAfter_check_def ShuttingDown_def)
  next
    case 2
    then show thesis
      by (intro added [where n = ?n])
        (simp add: AddAfter_def AddAfter_check_def AddAfter_enter_def delaying_Add_def ShuttingDown_def)
  next
    case 3
    then have "fst (AddAfter now pick x d q) = q\<lparr>waiting := ?w, retries := ?n\<rparr> \<or>
        fst (AddAfter now pick x d q) = q\<lparr>waiting := ?s, retries := ?n\<rparr>"
      by (auto simp: AddAfter_def AddAfter_check_def AddAfter_enter_def AddAfter_send_def ShuttingDown_def)
    then show thesis
      by (elim disjE) (erule unchanged, use s in simp_all)+
  qed
qed

lemma rl_limited_obs:
  assumes "rl_inv q" and "AddRateLimited cvt reserve now pick x q = (q', b)"
  shows "rl_inv q' \<and> (\<forall>y. queue_NumRequeues y q' =
      (if y = x then Suc (queue_NumRequeues y q) else queue_NumRequeues y q)) \<and>
    (Interface (DelayingInterface q') = Interface (DelayingInterface q) \<or>
     Interface (DelayingInterface q') = fst (Add now x (Interface (DelayingInterface q))))"
proof -
  obtain d rl where w: "When cvt reserve x (rateLimiter q) = (d, rl)" by fastforce
  with counts_When(1) [of cvt reserve x "rateLimiter q"] assms(1)
    NumRequeues_When(1) [of _ cvt reserve x "rateLimiter q"]
  have rl: "counts rl" "d_inv (DelayingInterface q)"
    "NumRequeues y rl = (if y = x then Suc (NumRequeues y (rateLimiter q)) else NumRequeues y (rateLimiter q))"
    for y by (auto simp: rl_inv_def)
  have q': "q' = q\<lparr>DelayingInterface := fst (AddAfter now pick x d (DelayingInterface q)),
      rateLimiter := rl\<rparr>"
    using assms(2) by (simp add: AddRateLimited_def w split_beta)
  show ?thesis
    by (cases rule: AddAfter_cases [of now pick x d "DelayingInterface q"])
      (use rl in \<open>auto simp: q' rl_inv_def d_inv_def q_inv_Add queue_NumRequeues_def\<close>)
qed

lemma rl_arrive_obs:
  assumes "rl_arrive q q'" and "rl_inv q"
  shows "rl_inv q' \<and> rateLimiter q' = rateLimiter q \<and>
    (Interface (DelayingInterface q') = Interface (DelayingInterface q) \<or>
     (\<exists>c x. Interface (DelayingInterface q') = fst (Add c x (Interface (DelayingInterface q)))))"
proof -
  from assms(1) obtain c pc ev w i pc' where
    step: "loop_step (\<lambda>now x q. fst (Add now x q)) ShuttingDown c
      (waiting (DelayingInterface q), Interface (DelayingInterface q), pc) ev (w, i, pc')"
    and q': "q' = q\<lparr>DelayingInterface := (DelayingInterface q)\<lparr>waiting := w, Interface := i\<rparr>\<rparr>"
    by (auto simp: rl_arrive_def)
  have "waiting_inv w"
    using waiting_inv_loop_step [OF step] assms(2) by (simp add: rl_inv_def d_inv_def)
  with loop_step_frame [OF step] assms(2) show ?thesis
    by (auto simp: q' rl_inv_def d_inv_def q_inv_Add)
qed

interpretation rlc: rate_limited_queue
  "rl_Add now" "rl_Get now" "rl_Done now" rl_ShutDown rl_Len
  "\<lambda>d. ShuttingDown (Interface (DelayingInterface d))"
  "\<lambda>d. queue (Interface (DelayingInterface d))" "\<lambda>d. processing (Interface (DelayingInterface d))"
  "\<lambda>d. q_again (Interface (DelayingInterface d))" rl_inv
  "\<lambda>x q. fst (AddRateLimited cvt reserve now pick x q)" queue_Forget queue_NumRequeues rl_arrive
  for cvt :: "float64 \<Rightarrow> int" and reserve :: "'b \<Rightarrow> duration \<times> 'b" and now :: time and pick :: bool
proof (unfold_locales, goal_cases)
  case (1 q x)
  then show ?case using rl_limited_obs [of q cvt reserve now pick x] by (metis prod.collapse)
next
  case (2 q x)
  then have "Interface (DelayingInterface (fst (AddRateLimited cvt reserve now pick x q))) =
      Interface (DelayingInterface q) \<or>
    Interface (DelayingInterface (fst (AddRateLimited cvt reserve now pick x q))) =
      Interface (DelayingInterface (rl_Add now x q))"
    using rl_limited_obs [of q cvt reserve now pick x] by (simp add: rl_Add_def delaying_Add_def) (metis prod.collapse)
  then show ?case
    by (elim disjE) (simp_all add: rl_Add_def delaying_Add_def ShuttingDown_def)
next
  case (3 q y x)
  then show ?case using rl_limited_obs [of q cvt reserve now pick x] by (metis prod.collapse)
next
  case (11 q r q' y)
  then show ?case by (auto simp: rl_Get_def queue_NumRequeues_def split: prod.splits)
next
  case (14 q q')
  then show ?case using rl_arrive_obs by blast
next
  case (15 q q')
  from rl_arrive_obs [OF this] consider "Interface (DelayingInterface q') = Interface (DelayingInterface q)"
    | c x where "Interface (DelayingInterface q') = fst (Add c x (Interface (DelayingInterface q)))" by blast
  then show ?case
  proof cases
    case 2
    then show ?thesis
      by (simp add: rl_Add_def delaying_Add_def q_again_def ShuttingDown_def) blast
  qed simp
next
  case (16 q q' y)
  then show ?case by (auto simp: rl_arrive_def queue_NumRequeues_def)
qed (auto simp: rl_inv_def queue_Forget_def queue_NumRequeues_def rl_Add_def rl_Done_def rl_ShutDown_def
    NumRequeues_Forget counts_Forget)

end
