(* ===== verification/Queue_Refinement.thy ===== *)
theory Queue_Refinement
  imports Rate_Limiting_Queue
begin

text \<open>
  The abstract queue that \<open>pkg/workqueue/doc.go\<close> describes, as a machine on three collections of items,
  and the refinement: whatever meets the contract of a work queue answers every sequence of calls as
  the machine does. The basic, the delaying and the rate limiting queue do.
\<close>

section \<open>The abstract queue\<close>

datatype 'a q_op = OpAdd 'a | OpGet | OpDone 'a | OpShutDown

record 'a q_spec =
  s_ready :: "'a list"
  s_running :: "'a set"
  s_again :: "'a set"
  s_stopping :: bool

definition spec_new :: "'a q_spec" where
  "spec_new = \<lparr>s_ready = [], s_running = {}, s_again = {}, s_stopping = False\<rparr>"

text \<open>
  Fair: items come out in the order in which they were added. Stingy: an item that is waiting is not
  added a second time, and one in process is not handed out again before it is done. An item added
  while it is in process waits for its turn afterwards. After the shutdown nothing is added, and
  \<open>Get\<close> says so when nothing is left.
\<close>

fun spec_step :: "'a q_op \<Rightarrow> 'a q_spec \<Rightarrow> 'a get_result option \<times> 'a q_spec" where
  "spec_step (OpAdd x) a =
     (None,
      if s_stopping a \<or> x \<in> set (s_ready a) then a
      else if x \<in> s_running a then a\<lparr>s_again := insert x (s_again a)\<rparr>
      else a\<lparr>s_ready := s_ready a @ [x]\<rparr>)"
| "spec_step OpGet a =
     (case s_ready a of
        [] \<Rightarrow> (Some (if s_stopping a then Quit else Blocked), a)
      | x # xs \<Rightarrow> (Some (Got x), a\<lparr>s_ready := xs, s_running := insert x (s_running a)\<rparr>))"
| "spec_step (OpDone x) a =
     (None, a\<lparr>s_ready := (if x \<in> s_again a then s_ready a @ [x] else s_ready a),
              s_running := s_running a - {x}, s_again := s_again a - {x}\<rparr>)"
| "spec_step OpShutDown a = (None, a\<lparr>s_stopping := True\<rparr>)"

fun spec_run :: "'a q_op list \<Rightarrow> 'a q_spec \<Rightarrow> 'a get_result option list \<times> 'a q_spec" where
  "spec_run [] a = ([], a)"
| "spec_run (op # ops) a =
     (case spec_step op a of (r, a') \<Rightarrow> (case spec_run ops a' of (rs, a'') \<Rightarrow> (r # rs, a'')))"

text \<open>Callers are done only with items they were given.\<close>

fun proper :: "'a q_op list \<Rightarrow> 'a q_spec \<Rightarrow> bool" where
  "proper [] a = True"
| "proper (op # ops) a =
     ((case op of OpDone x \<Rightarrow> x \<in> s_running a | _ \<Rightarrow> True) \<and> proper ops (snd (spec_step op a)))"

section \<open>Refinement\<close>

text \<open>The same calls on an implementation, each at a time of its own.\<close>

fun q_step ::
    "('a \<Rightarrow> 'q \<Rightarrow> 'q) \<Rightarrow> ('q \<Rightarrow> 'a get_result \<times> 'q) \<Rightarrow> ('a \<Rightarrow> 'q \<Rightarrow> 'q) \<Rightarrow> ('q \<Rightarrow> 'q) \<Rightarrow> 'a q_op \<Rightarrow> 'q \<Rightarrow>
      'a get_result option \<times> 'q" where
  "q_step add get fin stop (OpAdd x) q = (None, add x q)"
| "q_step add get fin stop OpGet q = (case get q of (r, q') \<Rightarrow> (Some r, q'))"
| "q_step add get fin stop (OpDone x) q = (None, fin x q)"
| "q_step add get fin stop OpShutDown q = (None, stop q)"

fun q_run ::
    "(time \<Rightarrow> 'a \<Rightarrow> 'q \<Rightarrow> 'q) \<Rightarrow> (time \<Rightarrow> 'q \<Rightarrow> 'a get_result \<times> 'q) \<Rightarrow> (time \<Rightarrow> 'a \<Rightarrow> 'q \<Rightarrow> 'q) \<Rightarrow> ('q \<Rightarrow> 'q) \<Rightarrow>
      (time \<times> 'a q_op) list \<Rightarrow> 'q \<Rightarrow> 'a get_result option list \<times> 'q" where
  "q_run add get fin stop [] q = ([], q)"
| "q_run add get fin stop ((now, op) # ops) q =
     (case q_step (add now) (get now) (fin now) stop op q of
        (r, q') \<Rightarrow> (case q_run add get fin stop ops q' of (rs, q'') \<Rightarrow> (r # rs, q'')))"

text \<open>The abstract queue that the observations of an implementation show.\<close>

definition q_obs :: "('q \<Rightarrow> bool) \<Rightarrow> ('q \<Rightarrow> 'a list) \<Rightarrow> ('q \<Rightarrow> 'a set) \<Rightarrow> ('q \<Rightarrow> 'a set) \<Rightarrow> 'q \<Rightarrow> 'a q_spec" where
  "q_obs stopping ready running again q =
     \<lparr>s_ready = ready q, s_running = running q, s_again = again q, s_stopping = stopping q\<rparr>"

context work_queue
begin

lemma step_refines:
  assumes "invar q" and "\<And>x. op = OpDone x \<Longrightarrow> x \<in> running q"
  shows "\<exists>q'. q_step add get fin stop op q = (fst (spec_step op (q_obs stopping ready running again q)), q') \<and> invar q' \<and>
    q_obs stopping ready running again q' = snd (spec_step op (q_obs stopping ready running again q))"
proof (cases op)
  case (OpAdd x)
  have "x \<notin> running q" if "x \<in> set (ready q)" using wf [OF assms(1)] that by blast
  with OpAdd assms(1) show ?thesis
    by (auto simp: q_obs_def ready_add running_add again_add stopping_add invar_add)
next
  case OpGet
  from assms(1) show ?thesis
    by (cases rule: get_result_cases) (use OpGet assms(1) in \<open>auto simp: q_obs_def\<close>)
next
  case (OpDone x)
  with assms show ?thesis
    by (simp add: q_obs_def invar_fin ready_fin running_fin again_fin stopping_fin)
next
  case OpShutDown
  with assms(1) stop_obs [OF assms(1)] show ?thesis by (simp add: q_obs_def invar_stop)
qed

end

lemma run_refines:
  assumes "\<And>now. work_queue (add now) (get now) (fin now) stop len stopping ready running again invar"
    and "invar q" and "proper (map snd ops) (q_obs stopping ready running again q)"
  shows "\<exists>q'. q_run add get fin stop ops q =
      (fst (spec_run (map snd ops) (q_obs stopping ready running again q)), q') \<and> invar q' \<and>
    q_obs stopping ready running again q' =
      snd (spec_run (map snd ops) (q_obs stopping ready running again q))"
  using assms(2,3)
proof (induction ops arbitrary: q)
  case (Cons o' ops)
  obtain now op where o': "o' = (now, op)" by (cases o')
  let ?obs = "q_obs stopping ready running again"
  have "x \<in> running q" if "op = OpDone x" for x
    using Cons.prems(2) that by (simp add: o' q_obs_def)
  from work_queue.step_refines [OF assms(1) Cons.prems(1) this] obtain q1 where
    q1: "q_step (add now) (get now) (fin now) stop op q = (fst (spec_step op (?obs q)), q1)"
    "invar q1" "?obs q1 = snd (spec_step op (?obs q))" by blast
  have "proper (map snd ops) (?obs q1)" using Cons.prems(2) by (simp add: o' q1(3))
  from Cons.IH [OF q1(2) this] q1 show ?case by (auto simp: o' case_prod_beta)
qed simp

text \<open>
  C3. The basic, the delaying and the rate limiting queue implement the same abstract queue: on every
  sequence of additions, \<open>Get\<close>, \<open>Done\<close> and \<open>ShutDown\<close> at any times, in which callers are done only with
  items they were given, each of them gives the answers of the abstract machine, whatever its metrics,
  and what it holds afterwards is what the machine holds.
\<close>

theorem queues_refine:
  assumes "proper (map snd ops) (spec_new :: 'a q_spec)"
  shows "\<exists>q d (r :: ('a, 'b) rateLimitingType).
    q_run (\<lambda>now x q. fst (Add now x q)) Get (\<lambda>now x q. fst (Done now x q)) (\<lambda>q. fst (ShutDown q)) ops (NewNamed f name) =
      (fst (spec_run (map snd ops) spec_new), q) \<and>
    q_run delaying_Add delaying_Get delaying_Done delaying_ShutDown ops (NewNamedDelayingQueue f z name) =
      (fst (spec_run (map snd ops) spec_new), d) \<and>
    q_run rl_Add rl_Get rl_Done rl_ShutDown ops (NewNamedRateLimitingQueue f z (DefaultControllerRateLimiter b) name) =
      (fst (spec_run (map snd ops) spec_new), r) \<and>
    (\<forall>t \<in> {q, Interface d, Interface (DelayingInterface r)}.
      q_obs ShuttingDown queue processing q_again t = snd (spec_run (map snd ops) spec_new))"
proof -
  have new: "q_obs ShuttingDown queue processing q_again (NewNamed f name) = (spec_new :: 'a q_spec)"
    by (simp add: q_obs_def spec_new_def NewNamed_def newQueue_def ShuttingDown_def q_again_def)
  have d: "Interface (NewNamedDelayingQueue f z name) = NewNamed f name"
    by (simp add: NewNamedDelayingQueue_def NewDelayingQueueWithCustomClock_def newDelayingQueue_def)
  then have dr: "Interface (DelayingInterface (NewNamedRateLimitingQueue f z (DefaultControllerRateLimiter b) name)) = NewNamed f name"
    by (simp add: NewNamedRateLimitingQueue_def)
  have r: "rl_inv (NewNamedRateLimitingQueue f z (DefaultControllerRateLimiter b) name)"
    by (simp add: rl_inv_def NewNamedRateLimitingQueue_def DefaultControllerRateLimiter_def
        NewMaxOfRateLimiter_def NewItemExponentialFailureRateLimiter_def)
  let ?spec = "spec_run (map snd ops) spec_new" and ?obs = "q_obs ShuttingDown queue processing q_again"
  have emb: "q_obs (\<lambda>d. ShuttingDown (Interface d)) (\<lambda>d. queue (Interface d)) (\<lambda>d. processing (Interface d))
      (\<lambda>d. q_again (Interface d)) x = ?obs (Interface x)" for x :: "'a delayingType" by (simp add: q_obs_def)
  have emb2: "q_obs (\<lambda>d. ShuttingDown (Interface (DelayingInterface d))) (\<lambda>d. queue (Interface (DelayingInterface d)))
      (\<lambda>d. processing (Interface (DelayingInterface d))) (\<lambda>d. q_again (Interface (DelayingInterface d))) x =
    ?obs (Interface (DelayingInterface x))" for x :: "('a, 'b) rateLimitingType" by (simp add: q_obs_def)
  obtain q where "q_run (\<lambda>now x q. fst (Add now x q)) Get (\<lambda>now x q. fst (Done now x q)) (\<lambda>q. fst (ShutDown q)) ops
      (NewNamed f name) = (fst ?spec, q)" "?obs q = snd ?spec"
    using run_refines [where add = "\<lambda>now x q. fst (Add now x q)" and get = Get and fin = "\<lambda>now x q. fst (Done now x q)",
        OF wq.work_queue_axioms q_inv_NewNamed [of f name], of ops] assms unfolding new by blast
  moreover obtain d where "q_run delaying_Add delaying_Get delaying_Done delaying_ShutDown ops
      (NewNamedDelayingQueue f z name) = (fst ?spec, d)" "?obs (Interface d) = snd ?spec"
    using run_refines [where add = delaying_Add and get = delaying_Get and fin = delaying_Done,
        OF dwq.promoted.work_queue_axioms d_inv_new [of f z name], of ops] assms
    unfolding emb d new by blast
  moreover obtain r where "q_run rl_Add rl_Get rl_Done rl_ShutDown ops
      (NewNamedRateLimitingQueue f z (DefaultControllerRateLimiter b) name) = (fst ?spec, r)"
    "?obs (Interface (DelayingInterface r)) = snd ?spec"
    using run_refines [where add = rl_Add and get = rl_Get and fin = rl_Done,
        OF rlq.promoted.work_queue_axioms r, of ops] assms
    unfolding emb2 dr new by blast
  ultimately show ?thesis by blast
qed

theorem queues_refine_witness:
  "\<exists>q :: nat Type. q_run (\<lambda>now x q. fst (Add now x q)) Get (\<lambda>now x q. fst (Done now x q)) (\<lambda>q. fst (ShutDown q))
     [(0, OpAdd 1), (1, OpGet), (2, OpAdd 1), (3, OpAdd 2), (4, OpDone 1), (5, OpShutDown), (6, OpGet), (7, OpGet), (8, OpGet)]
     (NewNamed globalMetricsFactory '''') =
    ([None, Some (Got 1), None, None, None, None, Some (Got 2), Some (Got 1), Some Quit], q)"
  using queues_refine [where f = globalMetricsFactory and name = "''''"
      and z = "\<lparr>data = 0, readyAt = 0, index = 0\<rparr>" and b = "()" and ops =
      "[(0, OpAdd (1::nat)), (1, OpGet), (2, OpAdd 1), (3, OpAdd 2), (4, OpDone 1), (5, OpShutDown), (6, OpGet), (7, OpGet), (8, OpGet)]"]
  by (auto simp add: spec_new_def simp del: q_run.simps)

end
