(* ===== verification/Queue_Threads.thy ===== *)
theory Queue_Threads
  imports Queue
begin

text \<open>
  The basic work queue under concurrent use. Threads share one \<open>Type\<close>; every critical section of
  \<open>pkg/workqueue/queue.go\<close> is one atomic step, \<open>cond.Wait\<close> parks a thread, \<open>cond.Signal\<close> wakes one
  parked thread (any of them, Go promises no order) and \<open>cond.Broadcast\<close> wakes all. \<open>ShutDown\<close> and
  \<open>ShutDownWithDrain\<close> are not atomic in the source: they are sequences of critical sections, so
  other threads may run between \<open>setDrain\<close>, \<open>shutdown\<close>, \<open>isProcessing\<close>, \<open>shouldDrain\<close> and
  \<open>waitForProcessing\<close>, and each of these is a program counter of its own.
  A worker calls \<open>Done\<close> only for items \<open>Get\<close> handed to it (the documented contract), which the set
  of items each thread holds makes explicit. The parameter \<open>D\<close> is the set of threads that may call
  \<open>ShutDownWithDrain\<close>.
\<close>

section \<open>Threads\<close>

datatype pc =
    Idle
  | GetParked
  | GetWoken
  | ShutDown_shutdown
  | Drain_shutdown
  | Drain_isProcessing
  | Drain_shouldDrain
  | Drain_wait
  | DrainParked
  | DrainWoken

record 'a sys =
  tq :: "'a Type"
  pcs :: "nat \<Rightarrow> pc"
  holds :: "nat \<Rightarrow> 'a set"

definition parked :: "pc \<Rightarrow> bool" where
  "parked p \<longleftrightarrow> p = GetParked \<or> p = DrainParked"

definition woken :: "pc \<Rightarrow> pc" where
  "woken p = (if p = GetParked then GetWoken else if p = DrainParked then DrainWoken else p)"

text \<open>The effect of a notification on the threads that wait on the condition variable.\<close>

inductive notify :: "wake \<Rightarrow> (nat \<Rightarrow> pc) \<Rightarrow> (nat \<Rightarrow> pc) \<Rightarrow> bool" where
  notify_none: "notify NoWake p p"
| notify_nobody: "(\<forall>t. \<not> parked (p t)) \<Longrightarrow> notify Signal p p"
| notify_one: "parked (p t) \<Longrightarrow> notify Signal p (p(t := woken (p t)))"
| notify_all: "notify Broadcast p (\<lambda>t. woken (p t))"

inductive_cases notify_BroadcastE: "notify Broadcast p p'"

inductive sys_step :: "nat set \<Rightarrow> 'a sys \<Rightarrow> 'a sys \<Rightarrow> bool" for D :: "nat set" where
  step_add:
    "pcs s t = Idle \<Longrightarrow> Add now x (tq s) = (q', w) \<Longrightarrow> notify w (pcs s) p' \<Longrightarrow>
     sys_step D s (s\<lparr>tq := q', pcs := p'\<rparr>)"
| step_get_item:
    "pcs s t = Idle \<or> pcs s t = GetWoken \<Longrightarrow> Get now (tq s) = (Got x, q') \<Longrightarrow>
     sys_step D s (s\<lparr>tq := q', pcs := (pcs s)(t := Idle),
                     holds := (holds s)(t := insert x (holds s t))\<rparr>)"
| step_get_quit:
    "pcs s t = Idle \<or> pcs s t = GetWoken \<Longrightarrow> Get now (tq s) = (Quit, q') \<Longrightarrow>
     sys_step D s (s\<lparr>tq := q', pcs := (pcs s)(t := Idle)\<rparr>)"
| step_get_wait:
    "pcs s t = Idle \<or> pcs s t = GetWoken \<Longrightarrow> Get now (tq s) = (Blocked, q') \<Longrightarrow>
     sys_step D s (s\<lparr>tq := q', pcs := (pcs s)(t := GetParked)\<rparr>)"
| step_done:
    "pcs s t = Idle \<Longrightarrow> x \<in> holds s t \<Longrightarrow> Done now x (tq s) = (q', w) \<Longrightarrow> notify w (pcs s) p' \<Longrightarrow>
     sys_step D s (s\<lparr>tq := q', pcs := p', holds := (holds s)(t := holds s t - {x})\<rparr>)"
| step_ShutDown_setDrain:
    "pcs s t = Idle \<Longrightarrow>
     sys_step D s (s\<lparr>tq := setDrain False (tq s), pcs := (pcs s)(t := ShutDown_shutdown)\<rparr>)"
| step_ShutDown_shutdown:
    "pcs s t = ShutDown_shutdown \<Longrightarrow> shutdown (tq s) = (q', w) \<Longrightarrow>
     notify w ((pcs s)(t := Idle)) p' \<Longrightarrow> sys_step D s (s\<lparr>tq := q', pcs := p'\<rparr>)"
| step_Drain_setDrain:
    "t \<in> D \<Longrightarrow> pcs s t = Idle \<Longrightarrow>
     sys_step D s (s\<lparr>tq := setDrain True (tq s), pcs := (pcs s)(t := Drain_shutdown)\<rparr>)"
| step_Drain_shutdown:
    "pcs s t = Drain_shutdown \<Longrightarrow> shutdown (tq s) = (q', w) \<Longrightarrow>
     notify w ((pcs s)(t := Drain_isProcessing)) p' \<Longrightarrow> sys_step D s (s\<lparr>tq := q', pcs := p'\<rparr>)"
| step_Drain_isProcessing:
    "pcs s t = Drain_isProcessing \<Longrightarrow>
     sys_step D s
       (s\<lparr>pcs := (pcs s)(t := (if isProcessing (tq s) then Drain_shouldDrain else Idle))\<rparr>)"
| step_Drain_shouldDrain:
    "pcs s t = Drain_shouldDrain \<Longrightarrow>
     sys_step D s (s\<lparr>pcs := (pcs s)(t := (if shouldDrain (tq s) then Drain_wait else Idle))\<rparr>)"
| step_Drain_wait:
    "pcs s t = Drain_wait \<Longrightarrow>
     sys_step D s
       (s\<lparr>pcs := (pcs s)(t := (if waitForProcessing (tq s) then DrainParked else Drain_isProcessing))\<rparr>)"
| step_Drain_woken:
    "pcs s t = DrainWoken \<Longrightarrow> sys_step D s (s\<lparr>pcs := (pcs s)(t := Drain_isProcessing)\<rparr>)"
| step_tick:
    "updateUnfinishedWorkTick clk (tq s) = (q', go) \<Longrightarrow> sys_step D s (s\<lparr>tq := q'\<rparr>)"

definition sys_init :: "queueMetricsFactory \<Rightarrow> string \<Rightarrow> 'a sys" where
  "sys_init f name = \<lparr>tq = NewNamed f name, pcs = (\<lambda>_. Idle), holds = (\<lambda>_. {})\<rparr>"

inductive sys_reachable :: "nat set \<Rightarrow> 'a sys \<Rightarrow> bool" for D :: "nat set" where
  reach_init: "sys_reachable D (sys_init f name)"
| reach_step: "sys_reachable D s \<Longrightarrow> sys_step D s s' \<Longrightarrow> sys_reachable D s'"

section \<open>Notification lemmas\<close>

lemma woken_eq_simps [simp]:
  "woken p = Idle \<longleftrightarrow> p = Idle" "woken p \<noteq> GetParked" "woken p \<noteq> DrainParked"
  "woken GetParked = GetWoken" "woken DrainParked = DrainWoken"
  by (auto simp: woken_def)

lemma notify_Idle: "notify w p p' \<Longrightarrow> p' t = Idle \<longleftrightarrow> p t = Idle"
  by (induction rule: notify.induct) (auto simp: parked_def)

lemma notify_GetParked: "notify w p p' \<Longrightarrow> p' t = GetParked \<Longrightarrow> p t = GetParked"
  by (induction rule: notify.induct) (auto split: if_splits)

lemma notify_DrainParked: "notify w p p' \<Longrightarrow> p' t = DrainParked \<Longrightarrow> p t = DrainParked"
  by (induction rule: notify.induct) (auto split: if_splits)

text \<open>The program counters a thread can have only after some call of \<open>shutdown\<close>.\<close>

definition in_drain_loop :: "pc \<Rightarrow> bool" where
  "in_drain_loop p \<longleftrightarrow>
     p \<in> {Drain_isProcessing, Drain_shouldDrain, Drain_wait, DrainParked, DrainWoken}"

lemma in_drain_loop_woken [simp]: "in_drain_loop (woken p) = in_drain_loop p"
  by (auto simp: in_drain_loop_def woken_def)

lemma notify_in_drain_loop: "notify w p p' \<Longrightarrow> in_drain_loop (p' t) = in_drain_loop (p t)"
  by (induction rule: notify.induct) auto

lemma notify_finite:
  "notify w p p' \<Longrightarrow> finite {t. p t \<noteq> Idle} \<Longrightarrow> finite {t. p' t \<noteq> Idle}"
  by (simp add: notify_Idle)

definition woken_getters :: "(nat \<Rightarrow> pc) \<Rightarrow> nat" where
  "woken_getters p = card {t. p t = GetWoken}"

lemma finite_GetWoken: "finite {t. p t \<noteq> Idle} \<Longrightarrow> finite {t. p t = GetWoken}"
  by (rule finite_subset [of _ "{t. p t \<noteq> Idle}"]) auto

lemma woken_getters_upd:
  assumes "finite {t. p t \<noteq> Idle}"
  shows "woken_getters (p(t := c)) =
    (if c = GetWoken then if p t = GetWoken then woken_getters p else Suc (woken_getters p)
     else if p t = GetWoken then woken_getters p - 1 else woken_getters p)"
proof -
  note fin = finite_GetWoken [OF assms]
  consider (same) "c = GetWoken \<longleftrightarrow> p t = GetWoken" | (inn) "c = GetWoken" "p t \<noteq> GetWoken"
    | (out) "c \<noteq> GetWoken" "p t = GetWoken" by blast
  then show ?thesis
  proof cases
    case same
    then have "{u. (p(t := c)) u = GetWoken} = {u. p u = GetWoken}" by auto
    with same show ?thesis by (auto simp: woken_getters_def)
  next
    case inn
    with card_Collect_upd_in [of "\<lambda>c. c = GetWoken" p t c] fin show ?thesis
      by (simp add: woken_getters_def)
  next
    case out
    with card_Collect_upd_out [of "\<lambda>c. c = GetWoken" p t c] fin show ?thesis
      by (simp add: woken_getters_def)
  qed
qed

section \<open>The invariant of the shared queue\<close>

definition holds_inv :: "'a sys \<Rightarrow> bool" where
  [inv_defs]: "holds_inv s \<longleftrightarrow> q_inv (tq s) \<and> processing (tq s) = (\<Union>t. holds s t) \<and>
     (\<forall>t u x. x \<in> holds s t \<longrightarrow> x \<in> holds s u \<longrightarrow> t = u)"

definition mode_inv :: "'a sys \<Rightarrow> bool" where
  [inv_defs]: "mode_inv s \<longleftrightarrow> finite {t. pcs s t \<noteq> Idle} \<and>
     (\<forall>t. pcs s t = GetParked \<longrightarrow> \<not> shuttingDown (tq s)) \<and>
     (\<forall>t. in_drain_loop (pcs s t) \<longrightarrow> shuttingDown (tq s))"

definition wakeup_inv :: "'a sys \<Rightarrow> bool" where
  [inv_defs]: "wakeup_inv s \<longleftrightarrow>
     ((\<exists>t. pcs s t = GetParked) \<longrightarrow> length (queue (tq s)) \<le> woken_getters (pcs s))"

lemma Get_GotD:
  "Get now q = (Got x, q') \<Longrightarrow> \<exists>xs. queue q = x # xs \<and> q' = snd (Get now q)"
  by (cases "queue q") (auto simp: Get_def Let_def split: if_splits)

lemma Get_QuitD: "Get now q = (Quit, q') \<Longrightarrow> queue q = [] \<and> shuttingDown q \<and> q' = q"
  by (cases "queue q") (auto simp: Get_def Let_def split: if_splits)

lemma Get_BlockedD: "Get now q = (Blocked, q') \<Longrightarrow> queue q = [] \<and> \<not> shuttingDown q \<and> q' = q"
  by (cases "queue q") (auto simp: Get_def Let_def split: if_splits)

lemma tick_fields:
  "updateUnfinishedWorkTick clk q = (q', go) \<Longrightarrow>
    queue q' = queue q \<and> dirty q' = dirty q \<and> processing q' = processing q \<and>
    shuttingDown q' = shuttingDown q \<and> drain q' = drain q"
  by (auto simp: updateUnfinishedWorkTick_def split: if_splits)

lemma Add_eqD: "Add now x q = (q', w) \<Longrightarrow> q' = fst (Add now x q)"
  by simp

lemma Done_eqD: "Done now x q = (q', w) \<Longrightarrow> q' = fst (Done now x q)"
  by simp

lemma shutdown_eqD: "shutdown q = (q', w) \<Longrightarrow> q' = fst (shutdown q) \<and> w = Broadcast"
  by (simp add: shutdown_def)

lemma holds_inv_init: "holds_inv (sys_init f name)"
  by (simp add: holds_inv_def sys_init_def NewNamed_def newQueue_def q_inv_newQueue [unfolded newQueue_def])

lemma holds_inv_same:
  "holds_inv s \<Longrightarrow> q_inv q' \<Longrightarrow> processing q' = processing (tq s) \<Longrightarrow> holds_inv (s\<lparr>tq := q', pcs := p\<rparr>)"
  by (simp add: holds_inv_def)

lemma holds_inv_get:
  assumes inv: "holds_inv s" and get: "Get now (tq s) = (Got x, q')"
  shows "holds_inv (s\<lparr>tq := q', pcs := p, holds := (holds s)(t := insert x (holds s t))\<rparr>)"
proof -
  from inv have q: "q_inv (tq s)" by (simp add: holds_inv_def)
  from wq.got_obs [OF q get] wq.got_not_running [OF q get]
  have "processing q' = insert x (processing (tq s))" "x \<notin> processing (tq s)" "q_inv q'"
    by auto
  with inv show ?thesis
    by (auto simp: holds_inv_def split: if_splits)
qed

lemma holds_inv_done:
  assumes inv: "holds_inv s" and x: "x \<in> holds s t" and q': "q' = fst (Done now x (tq s))"
  shows "holds_inv (s\<lparr>tq := q', pcs := p, holds := (holds s)(t := holds s t - {x})\<rparr>)"
proof -
  from inv x have proc: "x \<in> processing (tq s)" by (auto simp: holds_inv_def)
  have "x \<notin> holds s u" if "u \<noteq> t" for u
    using inv x that by (auto simp: holds_inv_def)
  then have "(\<Union>u. ((holds s)(t := holds s t - {x})) u) = (\<Union>u. holds s u) - {x}"
    by (fastforce split: if_splits)
  moreover have "q_inv q'" using inv proc by (simp add: q' q_inv_Done holds_inv_def)
  ultimately show ?thesis
    using inv by (auto simp: holds_inv_def q')
qed

lemma holds_inv_step: "sys_step D s s' \<Longrightarrow> holds_inv s \<Longrightarrow> holds_inv s'"
proof (induction rule: sys_step.induct)
  case (step_add s t now x q' w p')
  then show ?case
    by (metis Add_eqD Add_fields(3) holds_inv_def holds_inv_same q_inv_Add)
next
  case (step_get_item s t now x q')
  with holds_inv_get [OF step_get_item(3,2)] show ?case by simp
next
  case (step_done s t x now q' w p')
  from step_done(3) have "q' = fst (Done now x (tq s))" by simp
  with step_done show ?case by (simp add: holds_inv_done)
next
  case (step_get_quit s t now q')
  then show ?case by (auto simp: holds_inv_def dest: Get_QuitD)
next
  case (step_get_wait s t now q')
  then show ?case by (auto simp: holds_inv_def dest: Get_BlockedD)
next
  case (step_ShutDown_shutdown s t q' w p')
  then show ?case
    by (metis holds_inv_def holds_inv_same q_inv_shutdown shutdown_eqD shutdown_fields(3))
next
  case (step_Drain_shutdown s t q' w p')
  then show ?case
    by (metis holds_inv_def holds_inv_same q_inv_shutdown shutdown_eqD shutdown_fields(3))
next
  case (step_tick clk s q' go)
  then show ?case
    using q_inv_updateUnfinishedWorkTick [of "tq s" clk] tick_fields [OF step_tick(1)]
    by (simp add: holds_inv_def)
qed (simp_all add: holds_inv_def q_inv_setDrain)

lemma mode_inv_init: "mode_inv (sys_init f name)"
  by (simp add: mode_inv_def sys_init_def in_drain_loop_def)

lemma finite_not_Idle_upd:
  "finite {t. p t \<noteq> Idle} \<Longrightarrow> finite {t. (p(u := c)) t \<noteq> Idle}"
  by (rule finite_Collect_upd)

lemma mode_inv_notify:
  assumes "mode_inv s" and "notify w (pcs s) p'" and "shuttingDown q' = shuttingDown (tq s)"
  shows "mode_inv (s\<lparr>tq := q', pcs := p', holds := h\<rparr>)"
  using assms notify_finite [OF assms(2)]
  by (auto simp: mode_inv_def notify_in_drain_loop dest: notify_GetParked)

lemma mode_inv_move:
  assumes "mode_inv s" and "shuttingDown q' = shuttingDown (tq s)"
    and "c = GetParked \<Longrightarrow> \<not> shuttingDown (tq s)" and "in_drain_loop c \<Longrightarrow> shuttingDown (tq s)"
  shows "mode_inv (s\<lparr>tq := q', pcs := (pcs s)(t := c), holds := h\<rparr>)"
  using assms finite_not_Idle_upd [of "pcs s" t c] by (auto simp: mode_inv_def split: if_splits)

lemma mode_inv_shutdown:
  assumes "mode_inv s" and "notify Broadcast ((pcs s)(t := c)) p'"
  shows "mode_inv (s\<lparr>tq := fst (shutdown (tq s)), pcs := p'\<rparr>)"
  using assms finite_not_Idle_upd [of "pcs s" t c]
  by (auto simp: mode_inv_def elim!: notify_BroadcastE)

lemma in_drain_loop_simps [simp]:
  "\<not> in_drain_loop Idle" "\<not> in_drain_loop GetParked" "\<not> in_drain_loop GetWoken"
  "\<not> in_drain_loop ShutDown_shutdown" "\<not> in_drain_loop Drain_shutdown"
  "in_drain_loop Drain_isProcessing" "in_drain_loop Drain_shouldDrain" "in_drain_loop Drain_wait"
  "in_drain_loop DrainParked" "in_drain_loop DrainWoken"
  by (simp_all add: in_drain_loop_def)

lemma mode_inv_drain_move:
  assumes "mode_inv s" and "in_drain_loop (pcs s t)" and "c \<noteq> GetParked"
  shows "mode_inv (s\<lparr>pcs := (pcs s)(t := c)\<rparr>)"
proof -
  have "shuttingDown (tq s)" using assms(1,2) by (auto simp: mode_inv_def)
  with mode_inv_move [OF assms(1), where q' = "tq s" and c = c and t = t and h = "holds s"] assms(3) show ?thesis by simp
qed

lemma mode_inv_step: "sys_step D s s' \<Longrightarrow> mode_inv s \<Longrightarrow> mode_inv s'"
proof (induction rule: sys_step.induct)
  case (step_add s t now x q' w p')
  then have "shuttingDown q' = shuttingDown (tq s)" by (metis Add_eqD Add_fields(1))
  with mode_inv_notify [OF step_add(4,3)] have "mode_inv (s\<lparr>tq := q', pcs := p', holds := holds s\<rparr>)"
    by blast
  then show ?case by simp
next
  case (step_get_item s t now x q')
  from Get_GotD [OF step_get_item(2)] have "shuttingDown q' = shuttingDown (tq s)"
    by (auto simp: Get_Cons_fields)
  with step_get_item(3) show ?case by (intro mode_inv_move) simp_all
next
  case (step_get_quit s t now q')
  from Get_QuitD [OF step_get_quit(2)]
  show ?case using mode_inv_move [OF step_get_quit(3), where q' = q' and c = Idle and t = t and h = "holds s"] by simp
next
  case (step_get_wait s t now q')
  from Get_BlockedD [OF step_get_wait(2)]
  show ?case using mode_inv_move [OF step_get_wait(3), where q' = q' and c = GetParked and t = t and h = "holds s"] by simp
next
  case (step_done s t x now q' w p')
  then have "shuttingDown q' = shuttingDown (tq s)" by (metis Done_eqD Done_fields(1))
  then show ?case by (rule mode_inv_notify [OF step_done(5,4)])
next
  case (step_ShutDown_setDrain s t)
  then show ?case
    using mode_inv_move [where s = s and q' = "setDrain False (tq s)" and c = ShutDown_shutdown and t = t and h = "holds s"] by simp
next
  case (step_Drain_setDrain t s)
  then show ?case
    using mode_inv_move [where s = s and q' = "setDrain True (tq s)" and c = Drain_shutdown and t = t and h = "holds s"] by simp
next
  case (step_ShutDown_shutdown s t q' w p')
  then show ?case using mode_inv_shutdown [of s t Idle p'] shutdown_eqD by metis
next
  case (step_Drain_shutdown s t q' w p')
  then show ?case using mode_inv_shutdown [of s t Drain_isProcessing p'] shutdown_eqD by metis
next
  case (step_tick clk s q' go)
  with tick_fields [OF step_tick(1)] show ?case by (simp add: mode_inv_def)
qed (simp_all add: mode_inv_drain_move)

lemma wakeup_inv_init: "wakeup_inv (sys_init f name)"
  by (simp add: wakeup_inv_def sys_init_def)

lemma notify_Signal_getter:
  assumes "notify Signal p p'" and "\<forall>t. p t \<noteq> DrainParked" and "finite {t. p t \<noteq> Idle}"
    and "p' t = GetParked"
  shows "woken_getters p' = Suc (woken_getters p)"
  using assms(1)
proof (cases rule: notify.cases)
  case notify_nobody
  with assms(4) show ?thesis by (auto simp: parked_def)
next
  case (notify_one u)
  with assms(2) have "p u = GetParked" by (auto simp: parked_def)
  with notify_one assms(3) show ?thesis by (simp add: woken_getters_upd)
qed

lemma notify_woken_getters_mono:
  assumes "notify w p p'" and "finite {t. p t \<noteq> Idle}"
  shows "woken_getters p \<le> woken_getters p'"
proof -
  have "{t. p t = GetWoken} \<subseteq> {t. p' t = GetWoken}"
    using assms(1) by (induction rule: notify.induct) (auto simp: woken_def parked_def)
  moreover have "finite {t. p' t = GetWoken}"
    using notify_finite [OF assms] by (rule finite_GetWoken)
  ultimately show ?thesis by (simp add: woken_getters_def card_mono)
qed

text \<open>An operation that appends at most one item, and signals whenever it appends one.\<close>

lemma wakeup_inv_notify:
  assumes inv: "wakeup_inv s" "mode_inv s" and n: "notify w (pcs s) p'"
    and len: "length (queue q') \<le> length (queue (tq s)) \<or>
      length (queue q') = Suc (length (queue (tq s))) \<and> w = Signal"
  shows "wakeup_inv (s\<lparr>tq := q', pcs := p', holds := h\<rparr>)"
proof -
  have "length (queue q') \<le> woken_getters p'" if t: "p' t = GetParked" for t
  proof -
    from notify_GetParked [OF n t] have g: "pcs s t = GetParked" .
    with inv have le: "length (queue (tq s)) \<le> woken_getters (pcs s)"
      and down: "\<not> shuttingDown (tq s)" and fin: "finite {t. pcs s t \<noteq> Idle}"
      by (auto simp: wakeup_inv_def mode_inv_def)
    have nd: "\<forall>u. pcs s u \<noteq> DrainParked"
      using inv(2) down by (force simp: mode_inv_def in_drain_loop_def)
    from len show ?thesis
    proof
      assume "length (queue q') \<le> length (queue (tq s))"
      with le notify_woken_getters_mono [OF n fin] show ?thesis by linarith
    next
      assume "length (queue q') = Suc (length (queue (tq s))) \<and> w = Signal"
      with le notify_Signal_getter [of "pcs s" p' t] nd fin t n show ?thesis by simp
    qed
  qed
  then show ?thesis by (auto simp: wakeup_inv_def)
qed

lemma wakeup_inv_drain_move:
  assumes "wakeup_inv s" "mode_inv s" "in_drain_loop (pcs s t)" "c \<noteq> GetParked"
  shows "wakeup_inv (s\<lparr>pcs := (pcs s)(t := c)\<rparr>)"
  using assms by (auto simp: wakeup_inv_def mode_inv_def split: if_splits)

lemma wakeup_inv_step:
  "sys_step D s s' \<Longrightarrow> mode_inv s \<Longrightarrow> wakeup_inv s \<Longrightarrow> wakeup_inv s'"
proof (induction rule: sys_step.induct)
  case (step_add s t now x q' w p')
  have "length (queue q') \<le> length (queue (tq s)) \<or>
      length (queue q') = Suc (length (queue (tq s))) \<and> w = Signal"
    using step_add(2) by (auto simp: Add_def Let_def split: if_splits)
  with wakeup_inv_notify [OF step_add(5,4,3), where h = "holds s"] show ?case by simp
next
  case (step_get_item s t now x q')
  from Get_GotD [OF step_get_item(2)] have "Suc (length (queue q')) = length (queue (tq s))"
    by (auto simp: Get_Cons_fields)
  moreover have "finite {t. pcs s t \<noteq> Idle}" using step_get_item(3) by (simp add: mode_inv_def)
  ultimately show ?case
    using step_get_item(1,4) by (auto simp: wakeup_inv_def woken_getters_upd split: if_splits)
next
  case (step_get_quit s t now q')
  from Get_QuitD [OF step_get_quit(2)] show ?case by (simp add: wakeup_inv_def)
next
  case (step_get_wait s t now q')
  from Get_BlockedD [OF step_get_wait(2)] show ?case by (simp add: wakeup_inv_def)
next
  case (step_done s t x now q' w p')
  have "length (queue q') \<le> length (queue (tq s)) \<or>
      length (queue q') = Suc (length (queue (tq s))) \<and> w = Signal"
    using step_done(3) by (auto simp: Done_def Let_def split: if_splits)
  then show ?case by (rule wakeup_inv_notify [OF step_done(6,5,4)])
next
  case (step_ShutDown_setDrain s t)
  then show ?case by (auto simp: wakeup_inv_def mode_inv_def woken_getters_upd split: if_splits)
next
  case (step_Drain_setDrain t s)
  then show ?case by (auto simp: wakeup_inv_def mode_inv_def woken_getters_upd split: if_splits)
next
  case (step_ShutDown_shutdown s t q' w p')
  then show ?case by (auto simp: wakeup_inv_def elim!: notify_BroadcastE dest!: shutdown_eqD)
next
  case (step_Drain_shutdown s t q' w p')
  then show ?case by (auto simp: wakeup_inv_def elim!: notify_BroadcastE dest!: shutdown_eqD)
next
  case (step_tick clk s q' go)
  with tick_fields [OF step_tick(1)] show ?case by (simp add: wakeup_inv_def)
qed (simp_all add: wakeup_inv_drain_move)

lemma sys_reachable_invs: "sys_reachable D s \<Longrightarrow> holds_inv s \<and> mode_inv s \<and> wakeup_inv s"
proof (induction rule: sys_reachable.induct)
  case (reach_init f name)
  show ?case by (simp add: holds_inv_init mode_inv_init wakeup_inv_init)
next
  case (reach_step s s')
  then show ?case by (blast intro: holds_inv_step mode_inv_step wakeup_inv_step)
qed

section \<open>A single drainer\<close>

text \<open>
  With at most one thread in \<open>ShutDownWithDrain\<close>, a parked drainer always still has something to
  wait for: the \<open>Done\<close> that empties the processing set wakes it.
\<close>

definition drain_inv :: "nat set \<Rightarrow> 'a sys \<Rightarrow> bool" where
  [inv_defs]: "drain_inv D s \<longleftrightarrow> (\<forall>t. pcs s t = Drain_shutdown \<or> in_drain_loop (pcs s t) \<longrightarrow> t \<in> D) \<and>
     (\<forall>t. pcs s t = DrainParked \<longrightarrow> processing (tq s) \<noteq> {})"

lemma drain_inv_init: "drain_inv D (sys_init f name)"
  by (simp add: drain_inv_def sys_init_def)

lemma notify_Drain_shutdown:
  "notify w p p' \<Longrightarrow> p' t = Drain_shutdown \<longleftrightarrow> p t = Drain_shutdown"
  by (induction rule: notify.induct) (auto simp: woken_def parked_def)

text \<open>A signal while the only possible drainer is parked and no getter is: the drainer wakes.\<close>

lemma notify_Signal_drainer:
  assumes "notify Signal p p'" and "\<forall>t. p t \<noteq> GetParked"
    and "\<And>t u. p t = DrainParked \<Longrightarrow> p u = DrainParked \<Longrightarrow> t = u"
  shows "p' t \<noteq> DrainParked"
  using assms(1)
proof (cases rule: notify.cases)
  case notify_nobody
  then show ?thesis by (auto simp: parked_def)
next
  case (notify_one u)
  then have "p u = DrainParked" using assms(2) by (auto simp: parked_def)
  with notify_one assms(3) [of u t] show ?thesis by auto
qed

lemma drain_inv_done:
  assumes D: "\<forall>t\<in>D. \<forall>u\<in>D. t = u" and inv: "drain_inv D s" "mode_inv s" "finite (processing (tq s))"
    and dn: "Done now x (tq s) = (q', w)" and n: "notify w (pcs s) p'"
  shows "drain_inv D (s\<lparr>tq := q', pcs := p', holds := h\<rparr>)"
proof -
  have proc: "processing q' = processing (tq s) - {x}"
    using dn by (metis Done_eqD Done_fields(3))
  have "processing q' \<noteq> {}" if t: "p' t = DrainParked" for t
  proof
    assume empty: "processing q' = {}"
    with dn proc inv(3) have w: "w = Signal"
      by (auto simp: Done_def Let_def split: if_splits)
    from notify_DrainParked [OF n t] inv(2) have "\<forall>u. pcs s u \<noteq> GetParked"
      by (metis in_drain_loop_simps(9) mode_inv_def)
    moreover have "u = v" if "pcs s u = DrainParked" "pcs s v = DrainParked" for u v
      using inv(1) D that by (metis drain_inv_def in_drain_loop_simps(9))
    ultimately show False
      using notify_Signal_drainer [of "pcs s" p' t] n w t by blast
  qed
  then show ?thesis
    using inv(1) n by (auto simp: drain_inv_def notify_in_drain_loop notify_Drain_shutdown)
qed

lemma drain_inv_notify:
  assumes "drain_inv D s" and "notify w (pcs s) p'" and "processing q' = processing (tq s)"
  shows "drain_inv D (s\<lparr>tq := q', pcs := p', holds := h\<rparr>)"
  using assms
  by (auto simp: drain_inv_def notify_in_drain_loop notify_Drain_shutdown dest: notify_DrainParked)

lemma drain_inv_move:
  assumes "drain_inv D s" and "processing q' = processing (tq s) \<or> processing q' \<noteq> {}"
    and "c = Drain_shutdown \<or> in_drain_loop c \<Longrightarrow> t \<in> D"
    and "c = DrainParked \<Longrightarrow> processing (tq s) \<noteq> {}"
  shows "drain_inv D (s\<lparr>tq := q', pcs := (pcs s)(t := c), holds := h\<rparr>)"
  using assms by (auto simp: drain_inv_def split: if_splits)

lemma drain_inv_drain_move:
  assumes "drain_inv D s" and "in_drain_loop (pcs s t)"
    and "c = DrainParked \<Longrightarrow> processing (tq s) \<noteq> {}"
  shows "drain_inv D (s\<lparr>pcs := (pcs s)(t := c)\<rparr>)"
  using assms by (auto simp: drain_inv_def split: if_splits)

lemma drain_inv_shutdown:
  assumes "drain_inv D s" and "notify Broadcast ((pcs s)(t := c)) p'"
    and "in_drain_loop c \<Longrightarrow> t \<in> D" and "c \<noteq> Drain_shutdown"
  shows "drain_inv D (s\<lparr>tq := fst (shutdown (tq s)), pcs := p'\<rparr>)"
proof -
  from assms(2) have "p' = (\<lambda>u. woken (((pcs s)(t := c)) u))" by (auto elim: notify_BroadcastE)
  moreover have "woken p = Drain_shutdown \<longleftrightarrow> p = Drain_shutdown" for p by (simp add: woken_def)
  ultimately show ?thesis using assms(1,3,4) by (auto simp: drain_inv_def)
qed

lemma drain_inv_step:
  assumes D: "\<forall>t\<in>D. \<forall>u\<in>D. t = u"
  shows "sys_step D s s' \<Longrightarrow> holds_inv s \<Longrightarrow> mode_inv s \<Longrightarrow> drain_inv D s \<Longrightarrow> drain_inv D s'"
proof (induction rule: sys_step.induct)
  case (step_add s t now x q' w p')
  have "processing q' = processing (tq s)" using step_add(2) by (metis Add_eqD Add_fields(3))
  with drain_inv_notify [OF step_add(6,3), where h = "holds s"] show ?case by simp
next
  case (step_get_item s t now x q')
  from Get_GotD [OF step_get_item(2)] have "processing q' \<noteq> {}" by (auto simp: Get_Cons_fields)
  with step_get_item(5) show ?case by (intro drain_inv_move) simp_all
next
  case (step_get_quit s t now q')
  from Get_QuitD [OF step_get_quit(2)] step_get_quit(5) show ?case
    by (auto simp: drain_inv_def split: if_splits)
next
  case (step_get_wait s t now q')
  from Get_BlockedD [OF step_get_wait(2)] step_get_wait(5) show ?case
    by (auto simp: drain_inv_def split: if_splits)
next
  case (step_done s t x now q' w p')
  have "finite (processing (tq s))" using step_done(5) by (metis holds_inv_def q_invD(2))
  with D step_done show ?case by (blast intro: drain_inv_done)
next
  case (step_ShutDown_setDrain s t)
  then show ?case by (auto simp: drain_inv_def split: if_splits)
next
  case (step_Drain_setDrain t s)
  then show ?case by (auto simp: drain_inv_def split: if_splits)
next
  case (step_ShutDown_shutdown s t q' w p')
  then show ?case using drain_inv_shutdown [of D s t Idle p'] shutdown_eqD by fastforce
next
  case (step_Drain_shutdown s t q' w p')
  then have "t \<in> D" by (simp add: drain_inv_def)
  with step_Drain_shutdown show ?case
    using drain_inv_shutdown [of D s t Drain_isProcessing p'] shutdown_eqD by fastforce
next
  case (step_Drain_wait s t)
  then have "waitForProcessing (tq s) \<Longrightarrow> processing (tq s) \<noteq> {}"
    by (auto simp: waitForProcessing_def)
  with step_Drain_wait show ?case by (intro drain_inv_drain_move) (auto split: if_splits)
next
  case (step_tick clk s q' go)
  with tick_fields [OF step_tick(1)] show ?case by (simp add: drain_inv_def)
qed (auto intro!: drain_inv_drain_move)

lemma sys_reachable_drain_inv:
  "sys_reachable D s \<Longrightarrow> \<forall>t\<in>D. \<forall>u\<in>D. t = u \<Longrightarrow> drain_inv D s"
proof (induction rule: sys_reachable.induct)
  case (reach_init f name)
  show ?case by (rule drain_inv_init)
next
  case (reach_step s s')
  with sys_reachable_invs [OF reach_step(1)] show ?case by (blast intro: drain_inv_step)
qed

end
