(* ===== verification/Queue_Properties.thy ===== *)
theory Queue_Properties
  imports Queue_Threads
begin

text \<open>
  The properties of the basic work queue: what the package comment promises (fair, stingy, shutdown
  notifications), proved over every interleaving of \<open>Queue_Threads\<close>, and concrete runs that show
  where the drain protocol does less than its comment says.
\<close>

section \<open>Reaching concrete states\<close>

lemma reach_Add:
  assumes "sys_reachable D \<lparr>tq = q, pcs = p, holds = h\<rparr>" and "p t = Idle"
    and "Add now x q = (q', w)" and "notify w p p'"
  shows "sys_reachable D \<lparr>tq = q', pcs = p', holds = h\<rparr>"
  using reach_step [OF assms(1) step_add [where t = t and now = now and x = x and p' = p']] assms
  by simp

lemma reach_Get:
  assumes "sys_reachable D \<lparr>tq = q, pcs = p, holds = h\<rparr>" and "p t = Idle"
    and "Get now q = (Got x, q')"
  shows "sys_reachable D \<lparr>tq = q', pcs = p, holds = h(t := insert x (h t))\<rparr>"
proof -
  have "p(t := Idle) = p" using assms(2) by auto
  with reach_step [OF assms(1) step_get_item [where t = t and now = now and x = x]] assms
  show ?thesis by simp
qed

lemma reach_Get_wait:
  assumes "sys_reachable D \<lparr>tq = q, pcs = p, holds = h\<rparr>" and "p t = Idle"
    and "Get now q = (Blocked, q')"
  shows "sys_reachable D \<lparr>tq = q', pcs = p(t := GetParked), holds = h\<rparr>"
  using reach_step [OF assms(1) step_get_wait [where t = t and now = now]] assms by simp

lemma reach_Done:
  assumes "sys_reachable D \<lparr>tq = q, pcs = p, holds = h\<rparr>" and "p t = Idle" and "x \<in> h t"
    and "Done now x q = (q', w)" and "notify w p p'"
  shows "sys_reachable D \<lparr>tq = q', pcs = p', holds = h(t := h t - {x})\<rparr>"
  using reach_step [OF assms(1) step_done [where t = t and now = now and x = x and p' = p']] assms
  by simp

lemma notify_all_nobody: "\<forall>u. \<not> parked (p u) \<Longrightarrow> notify Broadcast p p"
  using notify_all [of p] by (simp add: woken_def parked_def)

lemma reach_ShutDown:
  assumes "sys_reachable D \<lparr>tq = q, pcs = p, holds = h\<rparr>" and "p t = Idle"
    and "\<forall>u. \<not> parked (p u)"
  shows "sys_reachable D \<lparr>tq = fst (ShutDown q), pcs = p, holds = h\<rparr>"
proof -
  have 1: "sys_reachable D \<lparr>tq = setDrain False q, pcs = p(t := ShutDown_shutdown), holds = h\<rparr>"
    using reach_step [OF assms(1) step_ShutDown_setDrain [where t = t]] assms by simp
  have "p(t := Idle) = p" using assms(2) by auto
  with notify_all_nobody [OF assms(3)]
    reach_step [OF 1 step_ShutDown_shutdown [where t = t and p' = p]]
  show ?thesis by (simp add: shutdown_def ShutDown_def)
qed

lemma reach_Drain_start:
  assumes "sys_reachable D \<lparr>tq = q, pcs = p, holds = h\<rparr>" and "p t = Idle" and "t \<in> D"
    and "\<forall>u. \<not> parked (p u)"
  shows "sys_reachable D \<lparr>tq = fst (shutdown (setDrain True q)),
    pcs = p(t := Drain_isProcessing), holds = h\<rparr>"
proof -
  have 1: "sys_reachable D \<lparr>tq = setDrain True q, pcs = p(t := Drain_shutdown), holds = h\<rparr>"
    using reach_step [OF assms(1) step_Drain_setDrain [where t = t]] assms by simp
  have "notify Broadcast (p(t := Drain_isProcessing)) (p(t := Drain_isProcessing))"
    using assms(4) by (intro notify_all_nobody) (simp add: parked_def)
  then show ?thesis
    using reach_step [OF 1 step_Drain_shutdown [where t = t and p' = "p(t := Drain_isProcessing)"]]
    by (simp add: shutdown_def)
qed

lemma reach_Drain_to_wait:
  assumes "sys_reachable D \<lparr>tq = q, pcs = p, holds = h\<rparr>" and "p t = Drain_isProcessing"
    and "isProcessing q" and "shouldDrain q"
  shows "sys_reachable D \<lparr>tq = q, pcs = p(t := Drain_wait), holds = h\<rparr>"
proof -
  have "sys_reachable D \<lparr>tq = q, pcs = p(t := Drain_shouldDrain), holds = h\<rparr>"
    using reach_step [OF assms(1) step_Drain_isProcessing [where t = t]] assms by simp
  from reach_step [OF this step_Drain_shouldDrain [where t = t]] assms show ?thesis by simp
qed

lemma reach_Drain_park:
  assumes "sys_reachable D \<lparr>tq = q, pcs = p, holds = h\<rparr>" and "p t = Drain_wait"
    and "waitForProcessing q"
  shows "sys_reachable D \<lparr>tq = q, pcs = p(t := DrainParked), holds = h\<rparr>"
  using reach_step [OF assms(1) step_Drain_wait [where t = t]] assms by simp

lemma reach_new:
  "sys_reachable D \<lparr>tq = newQueue noMetrics, pcs = (\<lambda>_. Idle), holds = (\<lambda>_. {})\<rparr>"
  using reach_init [of D globalMetricsFactory "''''"]
  by (simp add: sys_init_def NewNamed_def newQueueMetrics_def)

text \<open>A queue without metrics whose single item waits, and one whose single item is in process.\<close>

definition one_ready :: "nat Type" where
  "one_ready = \<lparr>queue = [7], dirty = {7}, processing = {}, shuttingDown = False, drain = False,
                metrics = noMetrics\<rparr>"

definition one_busy :: "nat Type" where
  "one_busy = \<lparr>queue = [], dirty = {}, processing = {7}, shuttingDown = False, drain = False,
               metrics = noMetrics\<rparr>"

definition draining :: "nat Type" where
  "draining = one_busy\<lparr>shuttingDown := True, drain := True\<rparr>"

abbreviation all_idle :: "nat \<Rightarrow> pc" where
  "all_idle \<equiv> \<lambda>_. Idle"

abbreviation held_by_5 :: "nat \<Rightarrow> nat set" where
  "held_by_5 \<equiv> (\<lambda>_. {})(5 := {7})"

lemma reach_one_ready: "sys_reachable D \<lparr>tq = one_ready, pcs = all_idle, holds = (\<lambda>_. {})\<rparr>"
  by (rule reach_Add [OF reach_new, where now = 0 and x = 7 and w = Signal])
    (simp_all add: Add_def newQueue_def one_ready_def notify_nobody parked_def)

lemma reach_one_busy: "sys_reachable D \<lparr>tq = one_busy, pcs = all_idle, holds = held_by_5\<rparr>"
  using reach_Get [OF reach_one_ready, where t = 5 and now = 0 and x = 7 and q' = one_busy]
  by (simp add: Get_def one_ready_def one_busy_def)

lemma draining_simps [simp]:
  "isProcessing draining" "shouldDrain draining" "waitForProcessing draining"
  "fst (shutdown (setDrain True one_busy)) = draining"
  "fst (shutdown (setDrain True draining)) = draining"
  by (simp_all add: draining_def one_busy_def isProcessing_def shouldDrain_def
      waitForProcessing_def shutdown_def setDrain_def)

lemma reach_draining_0:
  "0 \<in> D \<Longrightarrow>
    sys_reachable D \<lparr>tq = draining, pcs = all_idle(0 := Drain_isProcessing), holds = held_by_5\<rparr>"
  using reach_Drain_start [OF reach_one_busy, where t = 0] by (simp add: parked_def)

lemma reach_drain_wait_0:
  "0 \<in> D \<Longrightarrow> sys_reachable D \<lparr>tq = draining, pcs = all_idle(0 := Drain_wait), holds = held_by_5\<rparr>"
  using reach_Drain_to_wait [OF reach_draining_0, where t = 0] by simp

lemma reach_drain_parked_0:
  "0 \<in> D \<Longrightarrow> sys_reachable D \<lparr>tq = draining, pcs = all_idle(0 := DrainParked), holds = held_by_5\<rparr>"
  using reach_Drain_park [OF reach_drain_wait_0, where t = 0] by simp

section \<open>Properties\<close>

text \<open>
  C4. Stingy: a single item is never processed by two workers at the same time. In every reachable
  state of the shared queue, two threads that hold the same item are the same thread.
\<close>

theorem stingy:
  assumes "sys_reachable D s" and "x \<in> holds s t" and "x \<in> holds s u"
  shows "t = u"
  using sys_reachable_invs [OF assms(1)] assms(2,3) by (auto simp: holds_inv_def)

theorem stingy_witness: "(5::nat) = 5 \<and> 7 \<in> held_by_5 5"
  using stingy [OF reach_one_busy [of "{}"], of 7 5 5] by simp

text \<open>
  C5. The comment on the field \<open>queue\<close>, exactly: in every reachable state the queued items are the
  dirty items that are not being processed, each once; the depth gauge, when there is one, is the
  number of dirty items, and exactly the items in process have a start time.
\<close>

theorem queue_invariant:
  assumes "sys_reachable D s"
  shows "distinct (queue (tq s)) \<and> set (queue (tq s)) = dirty (tq s) - processing (tq s) \<and>
    (\<forall>m. metrics (tq s) = DefaultQueueMetrics m \<longrightarrow>
       depth_gauge (calls m) = int (card (dirty (tq s))) \<and>
       dom (processingStartTimes m) = processing (tq s))"
proof -
  from sys_reachable_invs [OF assms] have "q_inv (tq s)" by (simp add: holds_inv_def)
  note inv = q_invD [OF this]
  then show ?thesis by (metis metrics_track.simps(2))
qed

theorem queue_invariant_witness: "set (queue one_busy) = dirty one_busy - processing one_busy"
  using queue_invariant [OF reach_one_busy [of "{}"]] by simp

text \<open>
  C6. No lost wake-up: whenever an item is ready and some \<open>Get\<close> is parked on the condition
  variable, another \<open>Get\<close> has already been woken and will take an item.
\<close>

theorem no_lost_wakeup:
  assumes "sys_reachable D s" and "queue (tq s) \<noteq> []" and "pcs s t = GetParked"
  shows "\<exists>u. pcs s u = GetWoken"
proof -
  from sys_reachable_invs [OF assms(1)] assms(3)
  have "length (queue (tq s)) \<le> woken_getters (pcs s)" by (auto simp: wakeup_inv_def)
  with assms(2) have "card {u. pcs s u = GetWoken} \<noteq> 0"
    by (cases "queue (tq s)") (simp_all add: woken_getters_def)
  then have "{u. pcs s u = GetWoken} \<noteq> {}" by (metis card.empty)
  then show ?thesis by blast
qed

theorem no_lost_wakeup_witness: "\<exists>u. (all_idle(1 := GetWoken, 2 := GetParked)) u = GetWoken"
proof -
  have "sys_reachable {} \<lparr>tq = newQueue noMetrics, pcs = all_idle(1 := GetParked), holds = (\<lambda>_. {})\<rparr>"
    by (rule reach_Get_wait [OF reach_new]) (simp_all add: Get_def newQueue_def)
  then have r: "sys_reachable {} \<lparr>tq = newQueue noMetrics, pcs = all_idle(1 := GetParked, 2 := GetParked),
      holds = (\<lambda>_. {})\<rparr>"
    by (rule reach_Get_wait) (simp_all add: Get_def newQueue_def)
  have n: "notify Signal (all_idle(1 := GetParked, 2 := GetParked))
      (all_idle(1 := GetWoken, 2 := GetParked))"
    using notify_one [of "all_idle(1 := GetParked, 2 := GetParked)" 1]
    by (simp add: parked_def fun_upd_twist)
  have "sys_reachable {} \<lparr>tq = one_ready, pcs = all_idle(1 := GetWoken, 2 := GetParked),
      holds = (\<lambda>_. {})\<rparr>"
    by (rule reach_Add [OF r _ _ n, where t = 3 and now = 0 and x = 7])
      (simp_all add: Add_def newQueue_def one_ready_def)
  from no_lost_wakeup [OF this, of 2] show ?thesis by (simp add: one_ready_def)
qed

text \<open>
  C24. A drain by one thread ends: when at most one thread calls \<open>ShutDownWithDrain\<close>, it is parked
  only while some item is still being processed.
\<close>

theorem single_drainer_not_stuck:
  assumes "sys_reachable D s" and "\<forall>t\<in>D. \<forall>u\<in>D. t = u" and "pcs s t = DrainParked"
  shows "processing (tq s) \<noteq> {}"
  using sys_reachable_drain_inv [OF assms(1,2)] assms(3) by (auto simp: drain_inv_def)

theorem single_drainer_not_stuck_witness: "processing draining \<noteq> {}"
  using single_drainer_not_stuck [OF reach_drain_parked_0 [of "{0}"], of 0] by simp

text \<open>
  C38. With two threads in \<open>ShutDownWithDrain\<close> the drain can hang: the last \<open>Done\<close> signals only one
  of them. There is a reachable state with nothing queued, dirty or in process and no other thread
  doing anything, in which a drainer is still parked; no step of any thread then wakes it except a
  further call that broadcasts.
\<close>

theorem two_drainers_may_hang:
  "\<exists>s :: nat sys. sys_reachable {0, 1} s \<and> queue (tq s) = [] \<and> dirty (tq s) = {} \<and>
     processing (tq s) = {} \<and> drain (tq s) \<and> pcs s = all_idle(1 := DrainParked) \<and>
     (\<forall>t. holds s t = {})"
proof -
  let ?D = "{0, 1::nat}"
  let ?q = "draining\<lparr>processing := {}\<rparr>"
  note s0 = reach_drain_wait_0 [of ?D, simplified]
  have "sys_reachable ?D \<lparr>tq = draining, pcs = all_idle(0 := Drain_wait, 1 := Drain_isProcessing),
      holds = held_by_5\<rparr>"
    using reach_Drain_start [OF s0, where t = 1] by (simp add: parked_def)
  from reach_Drain_to_wait [OF this, where t = 1]
  have "sys_reachable ?D \<lparr>tq = draining, pcs = all_idle(0 := Drain_wait, 1 := Drain_wait),
      holds = held_by_5\<rparr>" by simp
  from reach_Drain_park [OF this, where t = 1]
  have "sys_reachable ?D \<lparr>tq = draining, pcs = all_idle(0 := Drain_wait, 1 := DrainParked),
      holds = held_by_5\<rparr>" by simp
  from reach_Drain_park [OF this, where t = 0]
  have s1: "sys_reachable ?D \<lparr>tq = draining, pcs = all_idle(0 := DrainParked, 1 := DrainParked),
      holds = held_by_5\<rparr>" by (simp add: fun_upd_twist)
  have "notify Signal (all_idle(0 := DrainParked, 1 := DrainParked))
      (all_idle(0 := DrainWoken, 1 := DrainParked))"
    using notify_one [of "all_idle(0 := DrainParked, 1 := DrainParked)" 0]
    by (simp add: parked_def fun_upd_twist)
  with reach_Done [OF s1, where t = 5 and x = 7 and now = 0 and w = Signal and q' = ?q]
  have "sys_reachable ?D \<lparr>tq = ?q, pcs = all_idle(0 := DrainWoken, 1 := DrainParked),
      holds = (\<lambda>_. {})\<rparr>"
    by (simp add: Done_def Let_def draining_def one_busy_def fun_upd_idem)
  from reach_step [OF this step_Drain_woken [where t = 0]]
  have "sys_reachable ?D \<lparr>tq = ?q, pcs = all_idle(0 := Drain_isProcessing, 1 := DrainParked),
      holds = (\<lambda>_. {})\<rparr>" by (simp add: fun_upd_twist)
  from reach_step [OF this step_Drain_isProcessing [where t = 0]]
  have "sys_reachable ?D \<lparr>tq = ?q, pcs = all_idle(1 := DrainParked), holds = (\<lambda>_. {})\<rparr>"
    by (simp add: fun_upd_twist isProcessing_def fun_upd_idem)
  note final = this
  show ?thesis
    by (rule exI, rule conjI, rule final) (simp add: draining_def one_busy_def)
qed

text \<open>
  C39. \<open>ShutDown\<close> does not always cut a drain short, although the comment on \<open>ShutDownWithDrain\<close>
  says so: between the drainer's \<open>shouldDrain\<close> and \<open>waitForProcessing\<close> the whole of \<open>ShutDown\<close> may
  run, and its broadcast is missed. A reachable state has \<open>ShutDown\<close> completed (\<open>drain\<close> is off again)
  and the drainer parked.
\<close>

theorem shutdown_may_not_interrupt_drain:
  "\<exists>s :: nat sys. sys_reachable {0} s \<and> shuttingDown (tq s) \<and> \<not> drain (tq s) \<and>
     pcs s = all_idle(0 := DrainParked)"
proof -
  let ?q = "draining\<lparr>drain := False\<rparr>"
  have "\<forall>u. \<not> parked ((all_idle(0 := Drain_wait)) u)" by (simp add: parked_def)
  then have "sys_reachable {0} \<lparr>tq = ?q, pcs = all_idle(0 := Drain_wait), holds = held_by_5\<rparr>"
    using reach_ShutDown [OF reach_drain_wait_0 [of "{0}"], where t = 1]
    by (simp add: ShutDown_def shutdown_def setDrain_def draining_def one_busy_def)
  from reach_Drain_park [OF this, where t = 0]
  have "sys_reachable {0} \<lparr>tq = ?q, pcs = all_idle(0 := DrainParked), holds = held_by_5\<rparr>"
    by (simp add: waitForProcessing_def draining_def one_busy_def)
  note final = this
  show ?thesis
    by (rule exI, rule conjI, rule final) (simp add: draining_def)
qed

text \<open>
  \<open>ShutDownWithDrain\<close> waits only for items in process: it can return while an item that was
  added before the call is still queued, although its comment speaks of all existing items.
\<close>

lemma drain_ignores_queued_items:
  "\<exists>s :: nat sys. sys_reachable {0} s \<and> shuttingDown (tq s) \<and> drain (tq s) \<and>
     queue (tq s) = [7] \<and> (\<forall>t. pcs s t = Idle)"
proof -
  let ?q = "one_ready\<lparr>shuttingDown := True, drain := True\<rparr>"
  have "sys_reachable {0} \<lparr>tq = ?q, pcs = all_idle(0 := Drain_isProcessing), holds = (\<lambda>_. {})\<rparr>"
    using reach_Drain_start [OF reach_one_ready [of "{0}"], where t = 0]
    by (simp add: parked_def shutdown_def setDrain_def one_ready_def)
  from reach_step [OF this step_Drain_isProcessing [where t = 0]]
  have "sys_reachable {0} \<lparr>tq = ?q, pcs = all_idle, holds = (\<lambda>_. {})\<rparr>"
    by (simp add: isProcessing_def one_ready_def fun_upd_idem)
  note final = this
  show ?thesis
    by (rule exI, rule conjI, rule final) (simp add: one_ready_def)
qed

text \<open>
  Fairness. A client adds items at given times to a new queue and then calls \<open>Get\<close> repeatedly.
\<close>

fun add_all :: "(time \<times> 'a) list \<Rightarrow> 'a Type \<Rightarrow> 'a Type" where
  "add_all [] q = q"
| "add_all ((now, x) # evs) q = add_all evs (fst (Add now x q))"

fun get_all :: "time list \<Rightarrow> 'a Type \<Rightarrow> 'a get_result list" where
  "get_all [] q = []"
| "get_all (now # ts) q = (case Get now q of (r, q') \<Rightarrow> r # get_all ts q')"

text \<open>The items in the order of their first occurrence.\<close>

definition first_occs :: "'a list \<Rightarrow> 'a list" where
  "first_occs xs = rev (remdups (rev xs))"

lemma first_occs_snoc:
  "first_occs (xs @ [x]) = (if x \<in> set xs then first_occs xs else first_occs xs @ [x])"
  by (simp add: first_occs_def)

lemma set_first_occs [simp]: "set (first_occs xs) = set xs"
  by (simp add: first_occs_def)

lemma add_all_append: "add_all (evs @ [(now, x)]) q = fst (Add now x (add_all evs q))"
  by (induction evs q rule: add_all.induct) simp_all

lemma add_all_new:
  "queue (add_all evs (NewNamed f name)) = first_occs (map snd evs) \<and>
   dirty (add_all evs (NewNamed f name)) = set (map snd evs) \<and>
   processing (add_all evs (NewNamed f name)) = {} \<and> \<not> shuttingDown (add_all evs (NewNamed f name))"
proof (induction evs rule: rev_induct)
  case Nil
  show ?case by (simp add: NewNamed_def newQueue_def first_occs_def)
next
  case (snoc ev evs)
  then show ?case
    by (cases ev) (simp add: add_all_append first_occs_snoc)
qed

lemma get_all_queue:
  "\<not> shuttingDown q \<Longrightarrow>
    get_all ts q = map Got (take (length ts) (queue q)) @ replicate (length ts - length (queue q)) Blocked"
proof (induction ts arbitrary: q)
  case (Cons now ts)
  show ?case
  proof (cases "queue q")
    case Nil
    with Cons show ?thesis by (simp add: Get_empty)
  next
    case (Cons x xs)
    note f = Get_Cons_fields [OF this, of now]
    then obtain q' where "Get now q = (Got x, q')" by (metis prod.collapse)
    with Cons.IH [of q'] Cons.prems f Cons show ?thesis by simp
  qed
qed simp

text \<open>
  C25. Fair: items are handed out in the order in which they were first added, each exactly once,
  however often it was added; every further \<open>Get\<close> waits.
\<close>

theorem fair_and_once:
  "get_all ts (add_all evs (NewNamed f name)) =
     map Got (take (length ts) (first_occs (map snd evs))) @
     replicate (length ts - length (first_occs (map snd evs))) Blocked"
  using add_all_new [of evs f name] get_all_queue by metis

text \<open>
  An item that is added while it is being processed is not lost: when its worker calls \<open>Done\<close>
  it is queued again, behind everything that is already waiting.
\<close>

lemma readded_item_is_requeued:
  assumes "q_inv q" and "x \<in> processing q" and "\<not> shuttingDown q"
  shows "queue (fst (Done now' x (fst (Add now x q)))) = queue q @ [x] \<and>
    x \<notin> processing (fst (Done now' x (fst (Add now x q))))"
  using assms by (simp add: q_inv_def)

lemma readded_item_is_requeued_witness:
  "queue (fst (Done 9 7 (fst (Add 8 7 one_busy)))) = [7]"
proof -
  have "q_inv one_busy" by (simp add: q_inv_def one_busy_def)
  with readded_item_is_requeued [of one_busy 7 9 8] show ?thesis by (simp add: one_busy_def)
qed

end
