(* ===== verification/Delaying_Properties.thy ===== *)
theory Delaying_Properties
  imports Delaying_Queue
begin

text \<open>
  The properties of the delaying queue (\<open>pkg/workqueue/delaying_queue.go\<close>), with the concrete
  states on which their witnesses evaluate.
\<close>

section \<open>Runs of the loop inside the system\<close>

lemma dq_steps_trans:
  assumes "dq_steps s' s''" and "dq_steps s s'"
  shows "dq_steps s s''"
  using assms by (induction) (auto intro: dq_steps_snoc)

lemma dq_reachable_steps: "dq_reachable s \<Longrightarrow> dq_steps s s' \<Longrightarrow> dq_reachable s'"
  by (metis dq_reachable_def dq_steps_trans)

lemma dq_run:
  assumes "loop_run (\<lambda>now x q. fst (Add now x q)) ShuttingDown c x ev y"
    and "clk s = c" and "x = (waiting (dq s), Interface (dq s), lpc s)" and "y = (w, q, pc)"
  shows "dq_steps s (s\<lparr>dq := (dq s)\<lparr>waiting := w, Interface := q\<rparr>, lpc := pc, trace := trace s @ ev\<rparr>)"
  using assms
proof (induction arbitrary: s)
  case (run_refl a)
  then show ?case by (auto intro: dq_steps_refl)
next
  case (run_step a ev a' evs b)
  obtain w1 q1 pc1 where a': "a' = (w1, q1, pc1)" by (metis prod_cases3)
  let ?s1 = "s\<lparr>dq := (dq s)\<lparr>waiting := w1, Interface := q1\<rparr>, lpc := pc1, trace := trace s @ ev\<rparr>"
  have "dq_steps s ?s1"
    using dq_steps_snoc [OF dq_steps_refl dq_loop] run_step.hyps(1) run_step.prems(1,2) a' by metis
  moreover have "dq_steps ?s1 (?s1\<lparr>dq := (dq ?s1)\<lparr>waiting := w, Interface := q\<rparr>, lpc := pc,
      trace := trace ?s1 @ evs\<rparr>)"
    using run_step.IH [of ?s1] run_step.prems a' by simp
  ultimately show ?case using dq_steps_trans [of ?s1 _ s] by simp
qed

lemmas dq_one = dq_steps_snoc [OF dq_steps_refl]

lemma dq_reachable_step: "dq_reachable s \<Longrightarrow> dq_step s s' \<Longrightarrow> dq_reachable s'"
  using dq_reachable_steps dq_one by blast

section \<open>A concrete run\<close>

text \<open>Item 7 is added with a delay of 5 at time 0; at time 5 the loop runs.\<close>

definition nowhere :: "nat waitFor" where
  "nowhere = \<lparr>data = 0, readyAt = 0, index = 0\<rparr>"

definition idle_queue :: "nat delayingType" where
  "idle_queue = NewNamedDelayingQueue globalMetricsFactory nowhere ''''"

definition item_sent :: "nat dsys" where
  "item_sent = \<lparr>dq = AddAfter_send 7 5 idle_queue, lpc = LoopTop, clk = 5, senders = {#},
                trace = [Accepted 7 5]\<rparr>"

definition item_fired :: "nat dsys" where
  "item_fired = item_sent\<lparr>
     dq := (dq item_sent)\<lparr>waiting := (waiting (dq item_sent))\<lparr>waitingForAddCh := []\<rparr>,
                          Interface := fst (Add 5 7 (Interface (dq item_sent)))\<rparr>,
     lpc := LoopDrain, trace := [Accepted 7 5, Fired 7 5]\<rparr>"

lemmas idle_queue_simps = idle_queue_def NewNamedDelayingQueue_def NewDelayingQueueWithCustomClock_def
  newDelayingQueue_def new_waiting_def

lemma idle_shuttingDown [simp]: "shuttingDown (Interface idle_queue) = False"
  by (simp add: idle_queue_simps NewNamed_def newQueue_def)

lemma idle_fields [simp]:
  "stopCh (waiting idle_queue) = False" "heartbeat (waiting idle_queue)"
  "waitingForAddCh (waiting idle_queue) = []" "pq (waitingForQueue (waiting idle_queue)) = []"
  "retries idle_queue = None" "fresh (waiting idle_queue) = 0"
  by (simp_all add: idle_queue_simps newRetryMetrics_def)

lemma retry_idle: "idle_queue\<lparr>retries := retry None\<rparr> = idle_queue"
  by (simp add: retry_def idle_queue_simps newRetryMetrics_def)

lemma reach_item_sent: "dq_reachable item_sent"
proof -
  let ?s0 = "\<lparr>dq = idle_queue, lpc = LoopTop, clk = 0, senders = {#}, trace = []\<rparr>"
  have r0: "dq_reachable ?s0"
    unfolding dq_reachable_def dq_init_def idle_queue_def by (metis dq_steps_refl)
  have r1: "dq_reachable (?s0\<lparr>senders := {#Checked 7 5#}\<rparr>)"
    using dq_reachable_step [OF r0 dq_check [of 7 5 ?s0 idle_queue "Some (Checked 7 5)"]]
    by (simp add: AddAfter_check_def ShuttingDown_def retry_idle parked_at_def)
  have r2: "dq_reachable (?s0\<lparr>senders := {#Sending 7 5#}\<rparr>)"
    using dq_reachable_step [OF r1 dq_enter [of _ 7 5 "{#}" idle_queue "Some (Sending 7 5)"]]
    by (simp add: AddAfter_enter_def parked_at_def)
  have r3: "dq_reachable (item_sent\<lparr>clk := 0\<rparr>)"
    using dq_reachable_step [OF r2 dq_send [of _ 7 5 "{#}"]]
    by (simp add: can_send_def chanCap_def item_sent_def)
  show ?thesis
    using dq_reachable_step [OF r3 dq_tick [of _ 5]] by (simp add: item_sent_def)
qed

lemma item_sent_waiting:
  "pq (waitingForQueue (waiting (dq item_sent))) = []" "waitingForAddCh (waiting (dq item_sent)) = [0]"
  "mem (waitingForQueue (waiting (dq item_sent))) 0 = \<lparr>data = 7, readyAt = 5, index = 0\<rparr>"
  "lpc item_sent = LoopTop" "clk item_sent = 5" "trace item_sent = [Accepted 7 5]"
  by (simp_all add: item_sent_def AddAfter_send_def send_def Let_def)

lemma item_sent_to_select:
  fixes w q
  defines "w \<equiv> waiting (dq item_sent)" and "q \<equiv> Interface (dq item_sent)"
  shows "loop_run (\<lambda>now x q. fst (Add now x q)) ShuttingDown 5 (w, q, LoopTop) [] (w, q, LoopSelect None)"
proof -
  let ?step = "loop_step (\<lambda>now x q. fst (Add now x q)) ShuttingDown 5"
  have a1: "?step (w, q, LoopTop) [] (w, q, LoopReady 5)"
    by (rule top_now) (simp add: q_def item_sent_def AddAfter_send_def ShuttingDown_def)
  have a2: "?step (w, q, LoopReady 5) [] (w, q, LoopSelect None)"
    using ready_end [of 5 "\<lambda>now x q. fst (Add now x q)" 5 w q ShuttingDown]
    by (simp add: ready_step_def pq_Peek_def nextReadyAt_def w_def item_sent_waiting)
  show ?thesis using run_step [OF a1 run_step [OF a2 run_refl]] by simp
qed

lemma reach_item_select: "dq_reachable (item_sent\<lparr>lpc := LoopSelect None\<rparr>)"
  using dq_run [OF item_sent_to_select _ _ refl, of item_sent]
  by (intro dq_reachable_steps [OF reach_item_sent])
    (simp add: item_sent_waiting, simp add: item_sent_def)

lemma reach_item_fired: "dq_reachable item_fired"
proof -
  let ?w = "waiting (dq item_sent)" and ?q = "Interface (dq item_sent)"
  have a3: "loop_step (\<lambda>now x q. fst (Add now x q)) ShuttingDown 5 (?w, ?q, LoopSelect None) [Fired 7 5]
      (?w\<lparr>waitingForAddCh := []\<rparr>, fst (Add 5 7 ?q), LoopDrain)"
    by (rule select_recv [OF item_sent_waiting(2)]) (simp add: take_entry_def item_sent_waiting)
  from dq_run [OF loop_run_trans [OF item_sent_to_select run_step [OF a3 run_refl]] _ _ refl, of item_sent]
  have "dq_steps item_sent item_fired" by (simp add: item_fired_def item_sent_waiting)
  then show ?thesis by (rule dq_reachable_steps [OF reach_item_sent])
qed

section \<open>Properties\<close>

text \<open>
  C19. Nothing fires early: whenever the waiting loop has handed an item to the queue, the item was
  accepted before with a ready time that had been reached at the loop's clock reading, and that
  reading is not in the future.
\<close>

theorem delayed_never_early:
  assumes "dq_reachable s" and "trace s = xs @ Fired d now # ys"
  shows "(\<exists>t\<le>now. Accepted d t \<in> set xs) \<and> now \<le> clk s"
proof -
  have "never_early (trace s)" "clock_inv s"
    using dq_reachable_inv [OF assms(1)] by (auto simp: dq_inv_def history_inv_def)
  with assms(2) show ?thesis by (auto simp: never_early_def clock_inv_def)
qed

theorem delayed_never_early_witness:
  "\<exists>t\<le>5. Accepted 7 t \<in> set [Accepted (7 :: nat) 5] \<and> (5 :: time) \<le> clk item_fired"
  using delayed_never_early [OF reach_item_fired, of "[Accepted 7 5]" 7 5 "[]"]
  by (simp add: item_fired_def)

text \<open>
  C8. Nothing is lost or postponed: an accepted item has been fired since, or its entry is still in
  the channel, or it waits in the heap with a ready time that is not later than asked for.
\<close>

theorem delayed_not_lost:
  assumes "dq_reachable s" and "trace s = xs @ Accepted d t # ys"
  shows "(\<exists>now. Fired d now \<in> set ys) \<or> (d, t) \<in> in_chan (waiting (dq s)) \<or>
    (\<exists>t'\<le>t. pending (waitingForQueue (waiting (dq s))) (waitingEntryByData (waiting (dq s))) d = Some t')"
proof -
  have "nothing_lost (trace s) (still_waiting (waiting (dq s)))"
    using dq_reachable_inv [OF assms(1)] by (auto simp: dq_inv_def history_inv_def)
  with assms(2) show ?thesis by (auto simp: nothing_lost_def still_waiting_def)
qed

theorem delayed_not_lost_witness:
  "(7, 5) \<in> in_chan (waiting (dq item_sent)) \<or>
    (\<exists>t'\<le>5. pending (waitingForQueue (waiting (dq item_sent)))
      (waitingEntryByData (waiting (dq item_sent))) 7 = Some t')"
  using delayed_not_lost [OF reach_item_sent, of "[]" 7 5 "[]"] by (simp add: item_sent_def)



text \<open>
  C21. While the loop waits, its timer is armed exactly when some item waits in the heap, so that it
  never sleeps on \<open>never\<close> with an item pending.
\<close>

theorem timer_armed:
  assumes "dq_reachable s" and "lpc s = LoopSelect dl"
  shows "dl = None \<longleftrightarrow>
    pending (waitingForQueue (waiting (dq s))) (waitingEntryByData (waiting (dq s))) = Map.empty"
  using dq_reachable_inv [OF assms(1)] assms(2) by (simp add: dq_inv_def timer_inv_def)

theorem timer_armed_witness:
  "(None :: time option) = None \<longleftrightarrow>
    pending (waitingForQueue (waiting (dq item_sent))) (waitingEntryByData (waiting (dq item_sent))) =
      Map.empty"
  using timer_armed [OF reach_item_select, of None] by simp

text \<open>
  C22. \<open>insert\<close> implements the map from items to due times: it keeps the heap, the indexes and the
  map of known entries consistent, and after it the item is due at the sooner of the two times.
\<close>

theorem insert_keeps_soonest:
  assumes "wait_inv h known" and "entry \<notin> set (pq h)"
    and "insert_entry h known entry = (h', known')"
  shows "wait_inv h' known' \<and>
    pending h' known' = (pending h known)(data (mem h entry) \<mapsto>
      (case pending h known (data (mem h entry)) of
         None \<Rightarrow> readyAt (mem h entry)
       | Some t \<Rightarrow> min t (readyAt (mem h entry))))"
  using insert_correct [OF assms] by (simp add: soonest_def)

text \<open>Item 7 waits for time 9 in the heap; entry 1 asks for time 4.\<close>

definition one_waiting :: "nat waitHeap" where
  "one_waiting = \<lparr>mem = (\<lambda>r. \<lparr>data = 7, readyAt = if r = 0 then 9 else 4, index = 0\<rparr>), pq = [0]\<rparr>"

lemma wait_inv_one_waiting: "wait_inv one_waiting [7 \<mapsto> 0]"
  by (auto simp: wait_inv_def pq_ok_def ordered_from_def one_waiting_def split: if_splits)

lemma one_waiting_fields:
  "pending one_waiting [7 \<mapsto> 0] = [7 \<mapsto> 9]" "pq one_waiting = [0]"
  "data (mem one_waiting r) = 7" "readyAt (mem one_waiting (Suc 0)) = 4"
  by (auto simp: pending_def one_waiting_def)

theorem insert_keeps_soonest_witness:
  "\<exists>h' known'. insert_entry one_waiting [7 \<mapsto> 0] 1 = (h', known') \<and> pending h' known' 7 = Some 4"
proof -
  obtain h' known' where ins: "insert_entry one_waiting [7 \<mapsto> 0] 1 = (h', known')" by fastforce
  have "1 \<notin> set (pq one_waiting)" by (simp add: one_waiting_fields)
  from insert_keeps_soonest [OF wait_inv_one_waiting this ins] ins show ?thesis
    by (simp add: one_waiting_fields)
qed

text \<open>
  C23. One turn of the loop over the ready entries hands over exactly the items whose time has come,
  each once, earliest first, and leaves exactly the others waiting at their times.
\<close>

theorem ready_entries_fire_in_order:
  assumes "wait_inv h known" and "add_ready now add h known q = (h', known', q')"
  shows "wait_inv h' known' \<and>
    pending h' known' = pending h known |` {d. \<forall>t. pending h known d = Some t \<longrightarrow> now < t} \<and>
    (\<exists>ds. q' = fold add ds q \<and> distinct ds \<and>
      set ds = {d. \<exists>t. pending h known d = Some t \<and> t \<le> now} \<and>
      sorted (map (\<lambda>d. the (pending h known d)) ds))"
proof -
  have "- due now p = {d. \<forall>t. p d = Some t \<longrightarrow> now < t}" for p :: "'a \<rightharpoonup> time"
    by (auto simp: due_def)
  then show ?thesis using add_ready_correct [OF assms] by (auto simp: due_def)
qed

theorem ready_entries_fire_in_order_witness:
  "\<exists>h' known' q'. add_ready 10 (\<lambda>d q. q @ [d]) one_waiting [7 \<mapsto> 0] [] = (h', known', q') \<and>
    q' = [7] \<and> pending h' known' = Map.empty"
proof -
  obtain h' known' q' where
    run: "add_ready 10 (\<lambda>d q. q @ [d]) one_waiting [7 \<mapsto> 0] [] = (h', known', q')"
    by (metis prod_cases3)
  from ready_entries_fire_in_order [OF wait_inv_one_waiting run] obtain ds where
    ds: "q' = fold (\<lambda>d q. q @ [d]) ds []" "distinct ds" "set ds = {7}"
    and m: "pending h' known' = Map.empty"
    by (auto simp: one_waiting_fields restrict_map_def fun_eq_iff split: if_splits)
  from ds(2,3) have "ds = [7]"
    by (cases ds; cases "tl ds") auto
  with ds(1) run m show ?thesis by auto
qed

end
