(* ===== verification/Rate_Properties.thy ===== *)
theory Rate_Properties
  imports Rate_Limiting_Queue
begin

text \<open>
  The properties of the rate limiters (\<open>pkg/workqueue/default_rate_limiters.go\<close>) and of the rate
  limiting queue. \<open>asked k\<close> is a limiter after \<open>k\<close> calls of \<open>When\<close>
  for the same item.
\<close>

definition asked ::
    "(float64 \<Rightarrow> int) \<Rightarrow> ('b \<Rightarrow> duration \<times> 'b) \<Rightarrow> 'a \<Rightarrow> nat \<Rightarrow> ('a, 'b) RateLimiter \<Rightarrow> ('a, 'b) RateLimiter" where
  "asked cvt reserve x k r = ((\<lambda>r. snd (When cvt reserve x r)) ^^ k) r"

lemma asked_simps [simp]:
  "asked cvt reserve x 0 r = r"
  "asked cvt reserve x (Suc k) r = snd (When cvt reserve x (asked cvt reserve x k r))"
  by (simp_all add: asked_def)

lemma asked_exponential:
  "\<exists>f. asked cvt reserve x k (NewItemExponentialFailureRateLimiter b m) =
         ItemExponentialFailureRateLimiter f b m \<and> failures_of f x = k"
proof (induction k)
  case 0
  then show ?case by (simp add: NewItemExponentialFailureRateLimiter_def)
next
  case (Suc k)
  then obtain f where "asked cvt reserve x k (NewItemExponentialFailureRateLimiter b m) =
      ItemExponentialFailureRateLimiter f b m" "failures_of f x = k" by blast
  then show ?case by (auto simp: Let_def)
qed

lemma exponential_sequence:
  "fst (When cvt reserve x (asked cvt reserve x k (NewItemExponentialFailureRateLimiter b m))) =
    exponential_delay cvt b m k"
  using asked_exponential [of cvt reserve x k b m] by (auto simp: Let_def)

lemma asked_max_of:
  "asked cvt reserve x k (MaxOfRateLimiter [r, BucketRateLimiter b]) =
     MaxOfRateLimiter [asked cvt reserve x k r, BucketRateLimiter (((\<lambda>b. snd (reserve b)) ^^ k) b)]"
  by (induction k) (simp_all add: split_beta)

text \<open>
  C26. The default per-item limiter is an exact capped exponential: the delay of the \<open>k\<close>-th retry is
  the smaller of one millisecond times two to the \<open>k\<close> and 1000 seconds, for every \<open>k\<close>, however
  the machine converts floats that do not fit.
\<close>

theorem default_item_backoff:
  "fst (When cvt reserve x (asked cvt reserve x k DefaultItemBasedRateLimiter)) =
     min (millisecond * 2 ^ k) (1000 * second)"
  unfolding DefaultItemBasedRateLimiter_def exponential_sequence
  using exponential_delay_exact [of millisecond "1000 * second" cvt k] no_collision [of millisecond k]
  by (simp add: millisecond_def second_def max_int64_def)

text \<open>
  The default controller limiter waits for the longer of the exponential back-off from five
  milliseconds and the token bucket; asking it takes one token from the bucket each time.
\<close>

lemma default_controller_backoff:
  "fst (When cvt reserve x (asked cvt reserve x k (DefaultControllerRateLimiter bucket))) =
     max (min (5 * millisecond * 2 ^ k) (1000 * second))
         (fst (reserve (((\<lambda>b. snd (reserve b)) ^^ k) bucket)))"
proof -
  let ?e = "NewItemExponentialFailureRateLimiter (5 * millisecond) (1000 * second)"
  define d where "d = min (5 * millisecond * 2 ^ k) (1000 * second)"
  have "fst (When cvt reserve x (asked cvt reserve x k ?e)) = d"
    unfolding exponential_sequence d_def
    using exponential_delay_exact [of "5 * millisecond" "1000 * second" cvt k]
      no_collision [of "5 * millisecond" k]
    by (simp add: millisecond_def second_def max_int64_def)
  moreover have "0 < d" by (simp add: d_def millisecond_def second_def)
  ultimately show ?thesis
    unfolding d_def [symmetric]
    by (simp add: DefaultControllerRateLimiter_def NewMaxOfRateLimiter_def asked_max_of split_beta max_def)
qed

text \<open>
  C27. Every limiter counts per item: \<open>Forget\<close> resets the item and no other, \<open>When\<close> adds one for the
  item and no other, and after \<open>Forget\<close> and \<open>k\<close> calls of \<open>When\<close> the count is \<open>k\<close>, provided that some
  part of the limiter counts at all.
\<close>

theorem requeues_are_counted:
  "NumRequeues y (Forget x r) = (if y = x then 0 else NumRequeues y r) \<and>
   NumRequeues y (snd (When cvt reserve x r)) =
     (if y = x \<and> counts r then Suc (NumRequeues y r) else NumRequeues y r) \<and>
   NumRequeues x (asked cvt reserve x k (Forget x r)) = (if counts r then k else 0)"
proof -
  have "NumRequeues x (asked cvt reserve x k (Forget x r)) = (if counts r then k else 0)"
    using limiter.num_since_forget [where cvt = cvt and reserve = reserve and s = r and x = x and k = k]
      limiter.counting_bumps [where cvt = cvt and reserve = reserve and s = "Forget x r" and x = x and k = k]
    by (auto simp: asked_def counts_Forget not_counting)
  then show ?thesis by (simp add: NumRequeues_Forget NumRequeues_When)
qed

text \<open>
  C40. The back-off can overflow. With a base delay of \<open>2 ^ j\<close> nanoseconds, the retry after \<open>63 - j\<close>
  failures computes exactly \<open>2 ^ 63\<close>, which the comparison with \<open>math.MaxInt64\<close> lets through because
  that constant rounds to the same float; on amd64 the delay becomes the smallest integer, a negative
  duration, instead of the maximal delay.
\<close>

theorem backoff_overflows:
  assumes "j < 53" and "0 \<le> m" and "m \<le> max_int64"
  shows "fst (When cvt_amd64 reserve x
    (asked cvt_amd64 reserve x (63 - j) (NewItemExponentialFailureRateLimiter (2 ^ j) m))) = min_int64"
proof -
  have "(2 :: int) ^ j * 2 ^ (63 - j) = 2 ^ (j + (63 - j))" by (rule power_add [symmetric])
  then have "(2 :: int) ^ j * 2 ^ (63 - j) = 2 ^ 63" using assms(1) by simp
  moreover have "(2 :: int) ^ j < 2 ^ 53" by (rule power_strict_increasing [OF assms(1)]) simp
  ultimately show ?thesis
    using exponential_delay_exact [of "2 ^ j" m cvt_amd64 "63 - j"] assms
    unfolding exponential_sequence by (simp add: cvt_amd64_def min_int64_def)
qed

theorem backoff_overflows_witness:
  "fst (When cvt_amd64 (\<lambda>b. (0, b)) (7 :: nat)
    (asked cvt_amd64 (\<lambda>b :: unit. (0, b)) 7 63
      (NewItemExponentialFailureRateLimiter 1 (1000 * second)))) = min_int64"
  using backoff_overflows [of 0 "1000 * second"] by (simp add: second_def max_int64_def)

text \<open>
  The fast-slow limiter answers the fast delay for the first attempts and the slow one after
  them, and a limiter wrapped in \<open>WithMaxWait\<close> never answers more than the maximal wait.
\<close>

lemma fast_then_slow:
  "fst (When cvt reserve x (asked cvt reserve x k
      (NewWithMaxWaitRateLimiter (NewItemFastSlowRateLimiter fast slow n) m))) =
    min (if int k < n then fast else slow) m"
proof -
  have "\<exists>f. asked cvt reserve x k (NewWithMaxWaitRateLimiter (NewItemFastSlowRateLimiter fast slow n) m) =
      WithMaxWaitRateLimiter (ItemFastSlowRateLimiter f n fast slow) m \<and> failures_of f x = k"
  proof (induction k)
    case 0
    then show ?case by (simp add: NewItemFastSlowRateLimiter_def NewWithMaxWaitRateLimiter_def)
  next
    case (Suc k)
    then obtain f where "asked cvt reserve x k
        (NewWithMaxWaitRateLimiter (NewItemFastSlowRateLimiter fast slow n) m) =
        WithMaxWaitRateLimiter (ItemFastSlowRateLimiter f n fast slow) m" "failures_of f x = k" by blast
    then show ?case by (auto simp: Let_def)
  qed
  then show ?thesis by (auto simp: Let_def)
qed

end
