(* ===== verification/Indexer_Queue.thy ===== *)
theory Indexer_Queue
  imports Waiting_Loop Queue "HOL-Library.Multiset"
begin

text \<open>
  The indexer delaying queue (\<open>pkg/workqueue/indexer_delaying_queue.go\<close>): items are queued by key,
  the newest version of an item replaces the older one, and the waiting loop pushes keys instead of
  items. The key function and the comparison of versions (\<open>Compared.LessOrEqual\<close>, \<open>None\<close> for an item
  that does not implement it) are supplied by the user of the queue and are parameters here.
\<close>

section \<open>Data\<close>

record 'a waitEntry =
  entry_data :: 'a
  entry_readyAt :: time

text \<open>
  The maps \<open>cacheEntries\<close> hold pointers; an entry is in one map at a time, so that values are enough.
  \<open>Get\<close> can store a nil pointer in \<open>processingEntries\<close>: \<open>Some None\<close>.
\<close>

record ('a, 'k) indexerDelayingQueue =
  knownPrepareEntries :: "'k \<rightharpoonup> 'a waitEntry"
  processingEntries :: "'k \<rightharpoonup> 'a waitEntry option"
  i_queue :: "'k list"
  i_dirty :: "'k set"
  i_shuttingDown :: bool
  i_drain :: bool
  i_metrics :: "'k queueMetrics"
  i_waiting :: "'k waiting"
  i_stopOnce :: bool

definition queueItemCap :: nat where
  "queueItemCap = 128"

definition newIndexerDelayingQueue ::
    "queueMetricsFactory \<Rightarrow> 'k waitFor \<Rightarrow> string \<Rightarrow> ('a, 'k) indexerDelayingQueue" where
  "newIndexerDelayingQueue f z name =
     \<lparr>knownPrepareEntries = Map.empty, processingEntries = Map.empty, i_queue = [], i_dirty = {},
      i_shuttingDown = False, i_drain = False, i_metrics = newQueueMetrics f name,
      i_waiting = new_waiting z, i_stopOnce = False\<rparr>"

section \<open>Operations\<close>

definition indexer_Len :: "('a, 'k) indexerDelayingQueue \<Rightarrow> nat" where
  "indexer_Len q = card (dom (knownPrepareEntries q)) + card (dom (processingEntries q))"

definition indexer_shutdown :: "('a, 'k) indexerDelayingQueue \<Rightarrow> ('a, 'k) indexerDelayingQueue" where
  "indexer_shutdown q = q\<lparr>i_shuttingDown := True\<rparr>"

definition indexer_ShutDown :: "('a, 'k) indexerDelayingQueue \<Rightarrow> ('a, 'k) indexerDelayingQueue" where
  "indexer_ShutDown q =
     (if i_stopOnce q then q
      else (indexer_shutdown q)\<lparr>i_waiting := (i_waiting q)\<lparr>stopCh := True, heartbeat := False\<rparr>,
                                i_stopOnce := True\<rparr>)"

definition indexer_waitForProcessing :: "('a, 'k) indexerDelayingQueue \<Rightarrow> bool" where
  "indexer_waitForProcessing q \<longleftrightarrow> \<not> card (dom (processingEntries q)) = 0"

definition indexer_setDrain :: "bool \<Rightarrow> ('a, 'k) indexerDelayingQueue \<Rightarrow> ('a, 'k) indexerDelayingQueue" where
  "indexer_setDrain b q = q\<lparr>i_drain := b\<rparr>"

definition indexer_shouldDrain :: "('a, 'k) indexerDelayingQueue \<Rightarrow> bool" where
  "indexer_shouldDrain q = i_drain q"

definition indexer_isProcessing :: "('a, 'k) indexerDelayingQueue \<Rightarrow> bool" where
  "indexer_isProcessing q \<longleftrightarrow> card (dom (processingEntries q)) \<noteq> 0"

text \<open>\<open>ShutDownWithDrain\<close>: the part under \<open>stopOnce\<close>, and whether the caller's loop goes on waiting.\<close>

definition indexer_ShutDownWithDrain ::
    "('a, 'k) indexerDelayingQueue \<Rightarrow> ('a, 'k) indexerDelayingQueue \<times> bool" where
  "indexer_ShutDownWithDrain q =
     (let q1 = (if i_stopOnce q then q
                else (indexer_shutdown (indexer_setDrain True q))
                       \<lparr>i_waiting := (i_waiting q)\<lparr>stopCh := True, heartbeat := False\<rparr>,
                        i_stopOnce := True\<rparr>)
      in (q1, indexer_isProcessing q1 \<and> indexer_shouldDrain q1))"

definition indexer_ShuttingDown :: "('a, 'k) indexerDelayingQueue \<Rightarrow> bool" where
  "indexer_ShuttingDown q = i_shuttingDown q"

text \<open>\<open>shouldAdd\<close> parks its caller while this holds.\<close>

definition shouldAdd_waits :: "('a, 'k) indexerDelayingQueue \<Rightarrow> bool" where
  "shouldAdd_waits q \<longleftrightarrow>
     card (dom (knownPrepareEntries q)) + card (dom (processingEntries q)) \<ge> queueItemCap \<and>
     \<not> i_shuttingDown q"

text \<open>
  The critical section of \<open>AddAfter\<close>. The flag is \<open>needPush\<close>; \<open>None\<close> is the nil dereference of
  \<open>processItem.data\<close>.
\<close>

definition indexer_AddAfter_locked ::
    "('a \<Rightarrow> ('a \<Rightarrow> bool) option) \<Rightarrow> time \<Rightarrow> 'a \<Rightarrow> 'k \<Rightarrow> time \<Rightarrow> ('a, 'k) indexerDelayingQueue \<Rightarrow>
     (('a, 'k) indexerDelayingQueue \<times> bool) option" where
  "indexer_AddAfter_locked lessOrEqual now item key readAt q =
     (if i_shuttingDown q then Some (q, False)
      else case knownPrepareEntries q key of
        Some waitItem \<Rightarrow>
          let e = (case lessOrEqual (entry_data waitItem) of
                     Some le \<Rightarrow> if le item then waitItem\<lparr>entry_data := item\<rparr> else waitItem
                   | None \<Rightarrow> waitItem)
          in if readAt < entry_readyAt e
             then Some (q\<lparr>knownPrepareEntries := (knownPrepareEntries q)(key \<mapsto> e\<lparr>entry_readyAt := readAt\<rparr>)\<rparr>, True)
             else Some (q\<lparr>knownPrepareEntries := (knownPrepareEntries q)(key \<mapsto> e)\<rparr>, False)
      | None \<Rightarrow>
          let fresh_entry =
                q\<lparr>knownPrepareEntries :=
                    (knownPrepareEntries q)(key \<mapsto> \<lparr>entry_data = item, entry_readyAt = readAt\<rparr>),
                  i_metrics := metrics_add now key (i_metrics q)\<rparr>
          in case processingEntries q key of
               None \<Rightarrow> Some (fresh_entry, True)
             | Some None \<Rightarrow> None
             | Some (Some processItem) \<Rightarrow>
                 (case lessOrEqual (entry_data processItem) of
                    Some le \<Rightarrow> if \<not> le item then Some (q, False) else Some (fresh_entry, True)
                  | None \<Rightarrow> Some (fresh_entry, True)))"

definition push :: "time \<Rightarrow> 'k \<Rightarrow> ('a, 'k) indexerDelayingQueue \<Rightarrow> ('a, 'k) indexerDelayingQueue \<times> wake" where
  "push now key q =
     (if i_shuttingDown q then (q, NoWake)
      else case knownPrepareEntries q key of
        None \<Rightarrow> (q, NoWake)
      | Some item \<Rightarrow>
          if now < entry_readyAt item then (q, NoWake)
          else if set_has (i_dirty q) key then (q, NoWake)
          else
            let q1 = q\<lparr>i_metrics := metrics_add now key (i_metrics q)\<rparr>;
                q2 = q1\<lparr>i_dirty := set_insert (i_dirty q1) key\<rparr>
            in case processingEntries q2 key of
                 Some _ \<Rightarrow> (q2, NoWake)
               | None \<Rightarrow> (q2\<lparr>i_queue := i_queue q2 @ [key]\<rparr>, Signal))"

text \<open>\<open>Get\<close>: the outer \<open>None\<close> is the nil dereference of \<open>entry.data\<close>.\<close>

definition indexer_Get ::
    "('a, 'k) indexerDelayingQueue \<Rightarrow> 'a get_result option \<times> ('a, 'k) indexerDelayingQueue" where
  "indexer_Get q =
     (case i_queue q of
        [] \<Rightarrow> (Some (if i_shuttingDown q then Quit else Blocked), q)
      | key # rest \<Rightarrow>
          let entry = knownPrepareEntries q key;
              q1 = q\<lparr>i_queue := rest\<rparr>;
              q2 = q1\<lparr>processingEntries := (processingEntries q1)(key \<mapsto> entry)\<rparr>;
              q3 = q2\<lparr>i_dirty := set_delete (i_dirty q2) key\<rparr>;
              q4 = q3\<lparr>knownPrepareEntries := (knownPrepareEntries q3)(key := None)\<rparr>
          in (map_option (\<lambda>e. Got (entry_data e)) entry, q4))"

definition indexer_Done ::
    "('a \<Rightarrow> 'k option) \<Rightarrow> time \<Rightarrow> 'a \<Rightarrow> ('a, 'k) indexerDelayingQueue \<Rightarrow> ('a, 'k) indexerDelayingQueue \<times> wake" where
  "indexer_Done keyFunc now item q =
     (case keyFunc item of
        None \<Rightarrow> (q, NoWake)
      | Some key \<Rightarrow>
          let q1 = q\<lparr>i_metrics := metrics_done now key (i_metrics q)\<rparr>;
              q2 = q1\<lparr>processingEntries := (processingEntries q1)(key := None)\<rparr>
          in if set_has (i_dirty q2) key then (q2\<lparr>i_queue := i_queue q2 @ [key]\<rparr>, Signal)
             else if card (dom (processingEntries q2)) = 0 then (q2, Signal)
             else (q2, NoWake))"

lemmas [op_defs] =
  newIndexerDelayingQueue_def indexer_Len_def indexer_shutdown_def indexer_ShutDown_def
  indexer_waitForProcessing_def indexer_setDrain_def indexer_shouldDrain_def indexer_isProcessing_def
  indexer_ShutDownWithDrain_def indexer_ShuttingDown_def shouldAdd_waits_def
  indexer_AddAfter_locked_def push_def indexer_Get_def indexer_Done_def

section \<open>The system\<close>

text \<open>Where a goroutine is inside \<open>Add\<close> or \<open>AddAfter\<close>.\<close>

datatype ('a, 'k) caller =
    AtAddAfter 'a
  | AtLock 'a 'k time
  | AtDecide 'k time
  | AtPush 'k
  | AtSend 'k time

record ('a, 'k) isys =
  iq :: "('a, 'k) indexerDelayingQueue"
  i_pc :: loop_pc
  i_clk :: time
  callers :: "('a, 'k) caller multiset"
  i_trace :: "'k event list"

datatype ('a, 'k) action =
    Tick time
  | Loop choice
  | CallAdd 'a
  | CallAddAfter 'a duration
  | Advance "('a, 'k) caller"
  | GiveUp "('a, 'k) caller"
  | CallGet
  | CallDone 'a
  | CallShutDown
  | CallShutDownWithDrain

text \<open>\<open>AddAfter\<close> computes the key and the ready time before it takes the lock.\<close>

definition begin_AddAfter ::
    "('a \<Rightarrow> 'k option) \<Rightarrow> 'a \<Rightarrow> duration \<Rightarrow> ('a, 'k) isys \<Rightarrow> ('a, 'k) isys" where
  "begin_AddAfter keyFunc item delay s =
     (case keyFunc item of
        None \<Rightarrow> s
      | Some key \<Rightarrow> s\<lparr>callers := add_mset (AtLock item key (i_clk s + delay)) (callers s)\<rparr>)"

fun advance ::
    "('a \<Rightarrow> 'k option) \<Rightarrow> ('a \<Rightarrow> ('a \<Rightarrow> bool) option) \<Rightarrow> ('a, 'k) caller \<Rightarrow> ('a, 'k) isys \<Rightarrow>
     ('a, 'k) isys option" where
  "advance keyFunc le (AtAddAfter item) s = Some (begin_AddAfter keyFunc item 0 s)"
| "advance keyFunc le (AtLock item key readAt) s =
     (case indexer_AddAfter_locked le (i_clk s) item key readAt (iq s) of
        None \<Rightarrow> None
      | Some (q, needPush) \<Rightarrow>
          Some (s\<lparr>iq := q,
                  callers := (if needPush then add_mset (AtDecide key readAt) (callers s) else callers s)\<rparr>))"
| "advance keyFunc le (AtDecide key readAt) s =
     Some (s\<lparr>callers := add_mset (if readAt < i_clk s then AtPush key else AtSend key readAt) (callers s)\<rparr>)"
| "advance keyFunc le (AtPush key) s = Some (s\<lparr>iq := fst (push (i_clk s) key (iq s))\<rparr>)"
| "advance keyFunc le (AtSend key readAt) s =
     (if can_send (i_waiting (iq s))
      then Some (s\<lparr>iq := (iq s)\<lparr>i_waiting := send key readAt (i_waiting (iq s))\<rparr>,
                   i_trace := i_trace s @ [Accepted key readAt]\<rparr>)
      else None)"

text \<open>\<open>Add\<close> waits in \<open>shouldAdd\<close>, and goes on to \<open>AddAfter\<close> without the lock.\<close>

definition indexer_Add :: "'a \<Rightarrow> ('a, 'k) isys \<Rightarrow> ('a, 'k) isys option" where
  [simp]: "indexer_Add item s =
     (if shouldAdd_waits (iq s) then None
      else Some (s\<lparr>callers := add_mset (AtAddAfter item) (callers s)\<rparr>))"

text \<open>A step of \<open>waitingLoop\<close>: the loop of the delaying queue, with \<open>push\<close> for a key that is due.\<close>

definition indexer_waitingLoop :: "choice \<Rightarrow> ('a, 'k) isys \<Rightarrow> ('a, 'k) isys option" where
  [simp]: "indexer_waitingLoop ch s =
     (case loop_exec (\<lambda>now k q. fst (push now k q)) indexer_ShuttingDown (i_clk s) ch
             (i_waiting (iq s)) (iq s) (i_pc s) of
        None \<Rightarrow> None
      | Some (ev, w, q, pc) \<Rightarrow> Some (s\<lparr>iq := q\<lparr>i_waiting := w\<rparr>, i_pc := pc, i_trace := i_trace s @ ev\<rparr>))"

fun ix_exec ::
    "('a \<Rightarrow> 'k option) \<Rightarrow> ('a \<Rightarrow> ('a \<Rightarrow> bool) option) \<Rightarrow> ('a, 'k) action \<Rightarrow> ('a, 'k) isys \<Rightarrow>
     ('a, 'k) isys option" where
  "ix_exec keyFunc le (Tick c) s = (if i_clk s \<le> c then Some (s\<lparr>i_clk := c\<rparr>) else None)"
| "ix_exec keyFunc le (Loop ch) s = indexer_waitingLoop ch s"
| "ix_exec keyFunc le (CallAdd item) s = indexer_Add item s"
| "ix_exec keyFunc le (CallAddAfter item delay) s = Some (begin_AddAfter keyFunc item delay s)"
| "ix_exec keyFunc le (Advance m) s =
     (if m \<in># callers s then advance keyFunc le m (s\<lparr>callers := callers s - {#m#}\<rparr>) else None)"
| "ix_exec keyFunc le (GiveUp m) s =
     (case m of
        AtSend key readAt \<Rightarrow>
          if m \<in># callers s \<and> stopCh (i_waiting (iq s)) then Some (s\<lparr>callers := callers s - {#m#}\<rparr>) else None
      | _ \<Rightarrow> None)"
| "ix_exec keyFunc le CallGet s = Some (s\<lparr>iq := snd (indexer_Get (iq s))\<rparr>)"
| "ix_exec keyFunc le (CallDone item) s =
     (case keyFunc item of
        None \<Rightarrow> None
      | Some key \<Rightarrow>
          if key \<in> dom (processingEntries (iq s)) then Some (s\<lparr>iq := fst (indexer_Done keyFunc (i_clk s) item (iq s))\<rparr>)
          else None)"
| "ix_exec keyFunc le CallShutDown s = Some (s\<lparr>iq := indexer_ShutDown (iq s)\<rparr>)"
| "ix_exec keyFunc le CallShutDownWithDrain s =
     Some (s\<lparr>iq := fst (indexer_ShutDownWithDrain (iq s))\<rparr>)"

fun ix_run ::
    "('a \<Rightarrow> 'k option) \<Rightarrow> ('a \<Rightarrow> ('a \<Rightarrow> bool) option) \<Rightarrow> ('a, 'k) action list \<Rightarrow> ('a, 'k) isys \<Rightarrow>
     ('a, 'k) isys option" where
  "ix_run keyFunc le [] s = Some s"
| "ix_run keyFunc le (a # as) s =
     (case ix_exec keyFunc le a s of None \<Rightarrow> None | Some s' \<Rightarrow> ix_run keyFunc le as s')"

definition ix_init :: "queueMetricsFactory \<Rightarrow> 'k waitFor \<Rightarrow> string \<Rightarrow> time \<Rightarrow> ('a, 'k) isys" where
  "ix_init f z name now =
     \<lparr>iq = newIndexerDelayingQueue f z name, i_pc = LoopTop, i_clk = now, callers = {#}, i_trace = []\<rparr>"

section \<open>Invariant\<close>

text \<open>
  Every dirty key has a known entry, the queue holds the dirty keys that are not in process, each
  once, entries are filed under the key of their item, and no nil entry is in process.
\<close>

definition idx_inv :: "('a \<Rightarrow> 'k option) \<Rightarrow> ('a, 'k) indexerDelayingQueue \<Rightarrow> bool" where
  "idx_inv keyFunc q \<longleftrightarrow>
     finite (dom (knownPrepareEntries q)) \<and> finite (dom (processingEntries q)) \<and>
     i_dirty q \<subseteq> dom (knownPrepareEntries q) \<and> distinct (i_queue q) \<and>
     set (i_queue q) = i_dirty q - dom (processingEntries q) \<and>
     (\<forall>k e. knownPrepareEntries q k = Some e \<longrightarrow> keyFunc (entry_data e) = Some k) \<and>
     (\<forall>k v. processingEntries q k = Some v \<longrightarrow> (\<exists>e. v = Some e \<and> keyFunc (entry_data e) = Some k))"

lemma idx_inv_frame [simp]:
  "idx_inv keyFunc (q\<lparr>i_waiting := w\<rparr>) = idx_inv keyFunc q"
  "idx_inv keyFunc (q\<lparr>i_shuttingDown := b\<rparr>) = idx_inv keyFunc q"
  "idx_inv keyFunc (q\<lparr>i_drain := b\<rparr>) = idx_inv keyFunc q"
  "idx_inv keyFunc (q\<lparr>i_stopOnce := b\<rparr>) = idx_inv keyFunc q"
  "idx_inv keyFunc (q\<lparr>i_metrics := m\<rparr>) = idx_inv keyFunc q"
  by (simp_all add: idx_inv_def)

lemma idx_inv_known:
  assumes "idx_inv keyFunc q" and "keyFunc (entry_data e) = Some k"
  shows "idx_inv keyFunc (q\<lparr>knownPrepareEntries := (knownPrepareEntries q)(k \<mapsto> e)\<rparr>)"
  using assms by (auto simp: idx_inv_def)

lemma locked_result:
  assumes "idx_inv keyFunc q" and "keyFunc x = Some k"
  obtains q' b where "indexer_AddAfter_locked le now x k t q = Some (q', b)" and "idx_inv keyFunc q'"
    and "i_waiting q' = i_waiting q"
proof -
  let ?new = "\<lparr>entry_data = x, entry_readyAt = t\<rparr>"
  have new: "idx_inv keyFunc (q\<lparr>knownPrepareEntries := (knownPrepareEntries q)(k \<mapsto> ?new),
      i_metrics := metrics_add now k (i_metrics q)\<rparr>)"
    using idx_inv_known [OF assms(1), of ?new k] assms(2) by (simp add: idx_inv_def)
  have old: "keyFunc (entry_data e) = Some k" if "knownPrepareEntries q k = Some e" for e
    using assms(1) that by (simp add: idx_inv_def)
  have nonil: "processingEntries q k \<noteq> Some None"
    using assms(1) by (fastforce simp: idx_inv_def)
  have "\<exists>q' b. indexer_AddAfter_locked le now x k t q = Some (q', b) \<and> idx_inv keyFunc q' \<and>
      i_waiting q' = i_waiting q"
  proof (cases "knownPrepareEntries q k")
    case None
    with new nonil assms(1) show ?thesis
      by (auto simp: indexer_AddAfter_locked_def Let_def split: option.splits)
  next
    case (Some e)
    with old assms(2) idx_inv_known [OF assms(1), of _ k] show ?thesis
      using assms(1)
      by (auto simp: indexer_AddAfter_locked_def Let_def split: option.splits)
  qed
  with that show thesis by blast
qed

lemma idx_inv_push:
  assumes "idx_inv keyFunc q"
  shows "idx_inv keyFunc (fst (push now k q))"
proof (cases "i_shuttingDown q \<or> knownPrepareEntries q k = None \<or> k \<in> i_dirty q")
  case True
  with assms show ?thesis by (auto simp: push_def split: option.splits)
next
  case False
  then obtain e where "knownPrepareEntries q k = Some e" "k \<notin> i_dirty q" "\<not> i_shuttingDown q" by auto
  with assms show ?thesis
    by (auto simp: push_def Let_def idx_inv_def split: option.splits)
qed

lemma push_fields [simp]:
  "knownPrepareEntries (fst (push now k q)) = knownPrepareEntries q"
  "processingEntries (fst (push now k q)) = processingEntries q"
  "i_shuttingDown (fst (push now k q)) = i_shuttingDown q"
  "i_waiting (fst (push now k q)) = i_waiting q"
  by (auto simp: push_def Let_def split: option.splits)

lemma push_other:
  "k' \<noteq> k \<Longrightarrow> k' \<in> i_dirty (fst (push now k q)) \<longleftrightarrow> k' \<in> i_dirty q"
  "k' \<noteq> k \<Longrightarrow> k' \<in> set (i_queue (fst (push now k q))) \<longleftrightarrow> k' \<in> set (i_queue q)"
  by (auto simp: push_def Let_def split: option.splits)

lemma indexer_Get_Cons:
  assumes "idx_inv keyFunc q" and "i_queue q = k # ks"
  obtains e where "knownPrepareEntries q k = Some e" and "keyFunc (entry_data e) = Some k"
    and "processingEntries q k = None" and "fst (indexer_Get q) = Some (Got (entry_data e))"
    and "idx_inv keyFunc (snd (indexer_Get q))"
proof -
  have k: "k \<in> i_dirty q" "k \<notin> dom (processingEntries q)" "k \<notin> set ks"
    using assms by (auto simp: idx_inv_def)
  then obtain e where e: "knownPrepareEntries q k = Some e" "keyFunc (entry_data e) = Some k"
    using assms(1) unfolding idx_inv_def by blast
  have "set ks = (i_dirty q - {k}) - insert k (dom (processingEntries q))"
    using assms k by (auto simp: idx_inv_def)
  then have "idx_inv keyFunc (snd (indexer_Get q))"
    using assms e by (auto simp: idx_inv_def indexer_Get_def Let_def)
  with that [OF e] k assms(2) e show thesis
    by (auto simp: indexer_Get_def Let_def)
qed

lemma idx_inv_Get: "idx_inv keyFunc q \<Longrightarrow> idx_inv keyFunc (snd (indexer_Get q))"
proof (cases "i_queue q")
  case (Cons k ks)
  assume "idx_inv keyFunc q"
  from indexer_Get_Cons [OF this Cons] show ?thesis by metis
qed (simp add: indexer_Get_def)

lemma idx_inv_Done:
  assumes "idx_inv keyFunc q" and "keyFunc x = Some k" and "k \<in> dom (processingEntries q)"
  shows "idx_inv keyFunc (fst (indexer_Done keyFunc now x q))"
proof -
  have "finite (dom ((processingEntries q)(k := None)))" using assms(1) by (simp add: idx_inv_def)
  moreover have "k \<in> i_dirty q \<Longrightarrow> k \<notin> set (i_queue q)" using assms by (auto simp: idx_inv_def)
  ultimately show ?thesis
    using assms by (auto simp: idx_inv_def indexer_Done_def Let_def)
qed

section \<open>The system keeps the invariant\<close>

definition caller_ok :: "('a \<Rightarrow> 'k option) \<Rightarrow> ('a, 'k) caller \<Rightarrow> bool" where
  "caller_ok keyFunc m \<longleftrightarrow> (case m of AtLock x k t \<Rightarrow> keyFunc x = Some k | _ \<Rightarrow> True)"

definition ix_inv :: "('a \<Rightarrow> 'k option) \<Rightarrow> ('a, 'k) isys \<Rightarrow> bool" where
  "ix_inv keyFunc s \<longleftrightarrow> idx_inv keyFunc (iq s) \<and> history_inv (i_trace s) (i_waiting (iq s)) \<and>
     (\<forall>m \<in># callers s. caller_ok keyFunc m)"

lemma ix_inv_init: "ix_inv keyFunc (ix_init f z name now)"
  by (simp add: ix_inv_def ix_init_def newIndexerDelayingQueue_def idx_inv_def history_inv_new)

lemma ix_inv_begin: "ix_inv keyFunc s \<Longrightarrow> ix_inv keyFunc (begin_AddAfter keyFunc x d s)"
  by (auto simp: ix_inv_def begin_AddAfter_def caller_ok_def split: option.splits)

lemma ix_inv_advance:
  assumes "ix_inv keyFunc s" and "caller_ok keyFunc m" and "advance keyFunc le m s = Some s'"
  shows "ix_inv keyFunc s'"
proof (cases m)
  case (AtLock x k t)
  then have inv: "idx_inv keyFunc (iq s)" "keyFunc x = Some k"
    using assms(1,2) by (auto simp: ix_inv_def caller_ok_def)
  obtain q b where "indexer_AddAfter_locked le (i_clk s) x k t (iq s) = Some (q, b)"
    "idx_inv keyFunc q" "i_waiting q = i_waiting (iq s)"
    by (rule locked_result [OF inv])
  with AtLock assms show ?thesis by (cases b) (auto simp: ix_inv_def caller_ok_def)
next
  case (AtSend k t)
  with assms history_inv_send show ?thesis by (auto simp: ix_inv_def split: if_splits)
next
  case (AtAddAfter x)
  with assms ix_inv_begin show ?thesis by force
qed (use assms in \<open>auto simp: ix_inv_def idx_inv_push caller_ok_def\<close>)

lemma loop_push_frame:
  assumes "loop_step (\<lambda>now k q. fst (push now k q)) indexer_ShuttingDown c (w, q, pc) ev (w', q', pc')"
    and "idx_inv keyFunc q"
  shows "idx_inv keyFunc q'"
  using loop_step_frame [OF assms(1)] assms(2) by (auto simp: idx_inv_push)

lemma indexer_stop_fields:
  "idx_inv keyFunc (indexer_ShutDown q) = idx_inv keyFunc q"
  "history_inv tr (i_waiting (indexer_ShutDown q)) = history_inv tr (i_waiting q)"
  "idx_inv keyFunc (fst (indexer_ShutDownWithDrain q)) = idx_inv keyFunc q"
  "history_inv tr (i_waiting (fst (indexer_ShutDownWithDrain q))) = history_inv tr (i_waiting q)"
  by (simp_all add: indexer_ShutDown_def indexer_ShutDownWithDrain_def indexer_shutdown_def
      indexer_setDrain_def Let_def)

lemma ix_inv_exec:
  assumes "ix_inv keyFunc s" and "ix_exec keyFunc le a s = Some s'"
  shows "ix_inv keyFunc s'"
proof (cases a)
  case (Loop ch)
  with assms(2) obtain ev w q pc where
    e: "loop_exec (\<lambda>now k q. fst (push now k q)) indexer_ShuttingDown (i_clk s) ch
      (i_waiting (iq s)) (iq s) (i_pc s) = Some (ev, w, q, pc)"
    and s': "s' = s\<lparr>iq := q\<lparr>i_waiting := w\<rparr>, i_pc := pc, i_trace := i_trace s @ ev\<rparr>"
    by (auto split: option.splits)
  note step = loop_exec_sound [OF e]
  from assms(1) history_inv_loop_step [OF step, of "i_trace s"] loop_push_frame [OF step]
  show ?thesis by (simp add: ix_inv_def s')
next
  case (Advance m)
  with assms(2) have m: "m \<in># callers s"
    "advance keyFunc le m (s\<lparr>callers := callers s - {#m#}\<rparr>) = Some s'" by (auto split: if_splits)
  moreover have "ix_inv keyFunc (s\<lparr>callers := callers s - {#m#}\<rparr>)" "caller_ok keyFunc m"
    using assms(1) m(1) by (auto simp: ix_inv_def dest: in_diffD)
  ultimately show ?thesis using ix_inv_advance by blast
next
  case (CallDone x)
  with assms(2) obtain k where k: "keyFunc x = Some k" "k \<in> dom (processingEntries (iq s))"
    and s': "s' = s\<lparr>iq := fst (indexer_Done keyFunc (i_clk s) x (iq s))\<rparr>"
    by (auto split: option.splits if_splits)
  have "i_waiting (iq s') = i_waiting (iq s)" using k by (auto simp: s' indexer_Done_def Let_def)
  with assms(1) k idx_inv_Done [of keyFunc "iq s" x k] show ?thesis by (simp add: ix_inv_def s')
next
  case CallGet
  have "i_waiting (snd (indexer_Get q)) = i_waiting q" for q :: "('a, 'b) indexerDelayingQueue"
    by (simp add: indexer_Get_def Let_def split: list.splits)
  with CallGet assms show ?thesis by (auto simp: ix_inv_def idx_inv_Get)
next
  case (GiveUp m)
  with assms show ?thesis
    by (cases m) (auto simp: ix_inv_def dest!: in_diffD split: if_splits)
next
  case (CallAddAfter x d)
  with assms ix_inv_begin show ?thesis by force
next
  case (CallAdd x)
  with assms show ?thesis by (auto simp: ix_inv_def caller_ok_def split: if_splits)
next
  case (Tick c)
  with assms show ?thesis by (auto simp: ix_inv_def split: if_splits)
qed (use assms in \<open>auto simp: ix_inv_def indexer_stop_fields\<close>)

lemma ix_inv_run: "ix_run keyFunc le as s = Some s' \<Longrightarrow> ix_inv keyFunc s \<Longrightarrow> ix_inv keyFunc s'"
  by (induction as arbitrary: s) (auto split: option.splits intro: ix_inv_exec)

lemma ix_run_append:
  "ix_run keyFunc le (as @ bs) s =
     (case ix_run keyFunc le as s of None \<Rightarrow> None | Some s' \<Rightarrow> ix_run keyFunc le bs s')"
  by (induction as arbitrary: s) (auto split: option.splits)

end
