(* ===== verification/Indexer_Properties.thy ===== *)
theory Indexer_Properties
  imports Indexer_Queue
begin

text \<open>
  The properties of the indexer delaying queue (\<open>pkg/workqueue/indexer_delaying_queue.go\<close>). Runs are
  lists of actions of the system of the theory \<open>Indexer_Queue\<close>; the concrete ones evaluate by
  rewriting.
\<close>

section \<open>Starving keys\<close>

text \<open>
  A key that waits in \<open>knownPrepareEntries\<close> although its time has come, and that nobody is going to
  push: it is neither dirty nor queued, and no caller, no channel entry and no heap entry carries it.
\<close>

definition harmless :: "'k \<Rightarrow> time \<Rightarrow> ('a, 'k) caller \<Rightarrow> bool" where
  "harmless k t0 m \<longleftrightarrow>
     (case m of
        AtAddAfter x \<Rightarrow> True
      | AtLock x k' t \<Rightarrow> k' = k \<longrightarrow> t0 \<le> t
      | AtDecide k' t \<Rightarrow> k' \<noteq> k
      | AtPush k' \<Rightarrow> k' \<noteq> k
      | AtSend k' t \<Rightarrow> k' \<noteq> k)"

definition unscheduled :: "'k \<Rightarrow> ('a, 'k) indexerDelayingQueue \<Rightarrow> bool" where
  "unscheduled k q \<longleftrightarrow> k \<notin> i_dirty q \<and> k \<notin> set (i_queue q) \<and>
     due_at (i_waiting q) k = None \<and> (\<forall>t. (k, t) \<notin> in_chan (i_waiting q))"

definition starved :: "'k \<Rightarrow> time \<Rightarrow> ('a, 'k) isys \<Rightarrow> bool" where
  "starved k t0 s \<longleftrightarrow>
     (\<exists>e. knownPrepareEntries (iq s) k = Some e \<and> entry_readyAt e = t0) \<and> t0 \<le> i_clk s \<and>
     unscheduled k (iq s) \<and> (\<forall>m \<in># callers s. harmless k t0 m)"

text \<open>A client that never asks for a time in the past.\<close>

fun patient :: "('a, 'k) action \<Rightarrow> bool" where
  "patient (CallAddAfter x d) \<longleftrightarrow> 0 \<le> d"
| "patient _ \<longleftrightarrow> True"

lemma starved_begin:
  assumes "starved k t0 s" and "0 \<le> d"
  shows "starved k t0 (begin_AddAfter keyFunc x d s)"
  using assms by (auto simp: starved_def begin_AddAfter_def harmless_def split: option.splits)

lemma locked_starved:
  assumes "knownPrepareEntries q k = Some e" and "unscheduled k q"
    and "indexer_AddAfter_locked le now x k' t q = Some (q', b)" and "k' = k \<longrightarrow> entry_readyAt e \<le> t"
  shows "(\<exists>e'. knownPrepareEntries q' k = Some e' \<and> entry_readyAt e' = entry_readyAt e) \<and>
    unscheduled k q' \<and> (k' = k \<longrightarrow> \<not> b)"
proof (cases "k' = k")
  case True
  with assms show ?thesis
    by (auto simp: indexer_AddAfter_locked_def unscheduled_def Let_def split: if_splits option.splits)
next
  case False
  then have "knownPrepareEntries q' k = knownPrepareEntries q k" "unscheduled k q'"
    using assms(2,3)
    by (auto simp: indexer_AddAfter_locked_def unscheduled_def Let_def split: if_splits option.splits)
  with assms(1) False show ?thesis by auto
qed

lemma unscheduled_push: "k' \<noteq> k \<Longrightarrow> unscheduled k (fst (push now k' q)) = unscheduled k q"
  by (simp add: unscheduled_def push_other)

lemma advance_starved:
  assumes "starved k t0 s" and "harmless k t0 m" and "waiting_inv (i_waiting (iq s))"
    and "advance keyFunc le m s = Some s'"
  shows "starved k t0 s'"
proof (cases m)
  case (AtAddAfter x)
  with assms(1,4) starved_begin [of k t0 s 0] show ?thesis by auto
next
  case (AtLock x k' t)
  with assms(4) obtain q b where l: "indexer_AddAfter_locked le (i_clk s) x k' t (iq s) = Some (q, b)"
    and s': "s' = s\<lparr>iq := q, callers := (if b then add_mset (AtDecide k' t) (callers s) else callers s)\<rparr>"
    by (auto split: option.splits)
  from assms(1) obtain e where "knownPrepareEntries (iq s) k = Some e" "entry_readyAt e = t0"
    "unscheduled k (iq s)" by (auto simp: starved_def)
  with locked_starved [OF _ _ l] assms(1,2) AtLock show ?thesis
    by (cases b) (auto simp: starved_def s' harmless_def)
next
  case (AtDecide k' t)
  with assms show ?thesis by (auto simp: starved_def harmless_def)
next
  case (AtPush k')
  with assms show ?thesis by (auto simp: starved_def harmless_def unscheduled_push)
next
  case (AtSend k' t)
  with assms send_effect [OF assms(3)] show ?thesis
    by (auto simp: starved_def harmless_def unscheduled_def split: if_splits)
qed

lemma take_entry_starved:
  assumes "waiting_inv w" and "waitingForAddCh w = r # rs"
    and "take_entry c (\<lambda>k q. fst (push c k q)) r (w\<lparr>waitingForAddCh := rs\<rparr>) q = (w', q', ev)"
    and "unscheduled k (q\<lparr>i_waiting := w\<rparr>)"
  shows "unscheduled k (q'\<lparr>i_waiting := w'\<rparr>) \<and> knownPrepareEntries q' = knownPrepareEntries q"
proof -
  from take_entry_effect [OF assms(1-3)] obtain d t where
    c: "in_chan w = insert (d, t) (in_chan w')"
    and new: "c < t \<Longrightarrow> q' = q \<and> due_at w' = (due_at w)(d \<mapsto> soonest t (due_at w d))"
    and old: "t \<le> c \<Longrightarrow> q' = fst (push c d q) \<and> due_at w' = due_at w" by metis
  from c assms(4) have "d \<noteq> k" by (auto simp: unscheduled_def)
  with new old assms(4) c show ?thesis
    by (cases "c < t") (auto simp: unscheduled_def push_other)
qed

lemma loop_starved:
  assumes "loop_step (\<lambda>now k q. fst (push now k q)) indexer_ShuttingDown c (w, q, pc) ev (w', q', pc')"
    and "waiting_inv w" and "unscheduled k (q\<lparr>i_waiting := w\<rparr>)"
  shows "unscheduled k (q'\<lparr>i_waiting := w'\<rparr>) \<and> knownPrepareEntries q' = knownPrepareEntries q"
  using assms(1)
proof cases
  case (ready_pop now h known r)
  have inv: "wait_inv (waitingForQueue w) (waitingEntryByData w)" using assms(2) by (simp add: waiting_inv_def)
  let ?d = "data (mem (waitingForQueue w) r)"
  from ready_step_fires [OF inv ready_pop(5,6)] obtain t where
    e: "due_at w ?d = Some t" "q' = fst (push c ?d q)" "pending h known = (due_at w)(?d := None)"
    "\<And>r. data (mem h r) = data (mem (waitingForQueue w) r)"
    "\<And>r. readyAt (mem h r) = readyAt (mem (waitingForQueue w) r)" by metis
  with assms(3) have "?d \<noteq> k" by (auto simp: unscheduled_def)
  with e assms(3) ready_pop(3) show ?thesis
    by (auto simp: unscheduled_def push_other in_chan_def)
next
  case (select_recv r rs dl)
  with take_entry_starved [OF assms(2) _ _ assms(3)] show ?thesis by blast
next
  case (drain_recv r rs)
  with take_entry_starved [OF assms(2) _ _ assms(3)] show ?thesis by blast
qed (use assms(3) in auto)

lemma starved_exec:
  assumes st: "starved k t0 s" and inv: "ix_inv keyFunc s" and "patient a"
    and ex: "ix_exec keyFunc le a s = Some s'"
  shows "starved k t0 s'"
proof (cases a)
  case (Tick c)
  with st ex show ?thesis by (auto simp: starved_def split: if_splits)
next
  case (Loop ch)
  with ex obtain ev w q pc where
    e: "loop_exec (\<lambda>now k q. fst (push now k q)) indexer_ShuttingDown (i_clk s) ch
      (i_waiting (iq s)) (iq s) (i_pc s) = Some (ev, w, q, pc)"
    and s': "s' = s\<lparr>iq := q\<lparr>i_waiting := w\<rparr>, i_pc := pc, i_trace := i_trace s @ ev\<rparr>"
    by (auto split: option.splits)
  have "waiting_inv (i_waiting (iq s))" "unscheduled k ((iq s)\<lparr>i_waiting := i_waiting (iq s)\<rparr>)"
    using inv st by (auto simp: ix_inv_def history_inv_def starved_def)
  from loop_starved [OF loop_exec_sound [OF e] this] st show ?thesis
    by (simp add: starved_def s')
next
  case (CallAdd x)
  with st ex show ?thesis by (auto simp: starved_def harmless_def split: if_splits)
next
  case (CallAddAfter x d)
  with st ex assms(3) starved_begin show ?thesis by force
next
  case (Advance m)
  with ex have m: "m \<in># callers s" "advance keyFunc le m (s\<lparr>callers := callers s - {#m#}\<rparr>) = Some s'"
    by (auto split: if_splits)
  have "starved k t0 (s\<lparr>callers := callers s - {#m#}\<rparr>)" "harmless k t0 m"
    using st m(1) by (auto simp: starved_def dest!: in_diffD)
  then show ?thesis
    using advance_starved m(2) inv by (fastforce simp: ix_inv_def history_inv_def)
next
  case (GiveUp m)
  with st ex show ?thesis
    by (cases m) (auto simp: starved_def dest!: in_diffD split: if_splits)
next
  case CallGet
  with st ex show ?thesis
    by (auto simp: starved_def unscheduled_def indexer_Get_def Let_def split: list.splits)
next
  case (CallDone x)
  with st ex show ?thesis
    by (auto simp: starved_def unscheduled_def indexer_Done_def Let_def split: option.splits if_splits)
next
  case CallShutDown
  with st ex show ?thesis
    by (cases "i_stopOnce (iq s)")
      (auto simp: starved_def unscheduled_def indexer_ShutDown_def indexer_shutdown_def)
next
  case CallShutDownWithDrain
  with st ex show ?thesis
    by (cases "i_stopOnce (iq s)")
      (auto simp: starved_def unscheduled_def indexer_ShutDownWithDrain_def indexer_shutdown_def
        indexer_setDrain_def Let_def)
qed

lemma starved_run:
  "ix_run keyFunc le as s = Some s' \<Longrightarrow> starved k t0 s \<Longrightarrow> ix_inv keyFunc s \<Longrightarrow>
    \<forall>a \<in> set as. patient a \<Longrightarrow> starved k t0 s'"
  by (induction as arbitrary: s) (auto split: option.splits intro: starved_exec ix_inv_exec)

section \<open>A run that starves a key\<close>

definition ix_start :: "string \<Rightarrow> (nat, nat) isys" where
  "ix_start name =
     ix_init \<lparr>metricsProvider = Provider 0, onlyOnce = True\<rparr> \<lparr>data = 0, readyAt = 0, index = 0\<rparr> name 0"

text \<open>
  Item 7 is its own key. It is added for time 10, then for now; the direct push takes it, a worker
  finishes it, and the entry for time 10 stays in the heap. At time 2 it is added for time 20.
\<close>

definition starving_run :: "(nat, nat) action list" where
  "starving_run =
    [CallAddAfter 7 10, Advance (AtLock 7 7 10), Advance (AtDecide 7 10), Advance (AtSend 7 10),
     Loop TakeEntry, Loop TakeEntry, Loop TakeEntry, Loop TakeEntry, Loop TakeEntry, Loop TakeEntry,
     CallAddAfter 7 0, Advance (AtLock 7 7 0), Tick 1, Advance (AtDecide 7 0), Advance (AtPush 7),
     CallGet, CallDone 7,
     Tick 2, CallAddAfter 7 18, Advance (AtLock 7 7 20), Advance (AtDecide 7 20), Advance (AtSend 7 20),
     Loop TakeEntry, Loop TakeEntry, Loop TakeEntry, Loop TakeEntry,
     Tick 10, Loop TakeTimer, Loop TakeEntry, Loop TakeEntry, Loop TakeEntry, Tick 20]"

lemmas ix_eval =
  ix_start_def ix_init_def begin_AddAfter_def indexer_AddAfter_locked_def push_def indexer_Get_def
  indexer_Done_def newIndexerDelayingQueue_def new_waiting_def newQueueMetrics_def
  take_entry_def insert_entry_def send_def can_send_def chanCap_def ready_step_def pq_Peek_def
  nextReadyAt_def heap_Push_def heap_Pop_def pq_Push_def pq_Pop_def pq_Len_def pq_Swap_def pq_Less_def
  Let_def indexer_ShuttingDown_def swap_list_def time_Sub_def min_int64_def max_int64_def
  heap_up.simps heap_down_def heap_down_loop.simps

lemma starving_run_starves:
  "\<exists>s. ix_run Some (\<lambda>_. None) starving_run (ix_start '''') = Some s \<and> starved 7 20 s"
  by (simp add: starving_run_def ix_eval starved_def unscheduled_def in_chan_def pending_def)

section \<open>Properties\<close>

text \<open>
  C30. Over every interleaving of the loop, of callers of \<open>Add\<close> and \<open>AddAfter\<close>, of workers and of
  shutdowns, \<open>Get\<close> never dereferences a nil entry: the first queued key has an entry, \<open>Get\<close> hands out
  its item, whose key it is, and no worker holds that key; nor does \<open>AddAfter\<close> meet a nil entry.
\<close>

theorem indexer_Get_safe:
  assumes "ix_run keyFunc le as (ix_init f z name now) = Some s"
    and "i_queue (iq s) = k # ks" and "keyFunc x = Some k'"
  shows "(\<exists>y. fst (indexer_Get (iq s)) = Some (Got y) \<and> keyFunc y = Some k) \<and>
    k \<notin> dom (processingEntries (iq s)) \<and> k \<notin> set ks \<and>
    indexer_AddAfter_locked le t x k' t' (iq s) \<noteq> None"
proof -
  have inv: "idx_inv keyFunc (iq s)"
    using ix_inv_run [OF assms(1) ix_inv_init] by (simp add: ix_inv_def)
  have "distinct (k # ks)" using inv assms(2) by (simp add: idx_inv_def)
  moreover obtain e where "knownPrepareEntries (iq s) k = Some e" "keyFunc (entry_data e) = Some k"
    "processingEntries (iq s) k = None" "fst (indexer_Get (iq s)) = Some (Got (entry_data e))"
    "idx_inv keyFunc (snd (indexer_Get (iq s)))"
    by (rule indexer_Get_Cons [OF inv assms(2)])
  moreover have "indexer_AddAfter_locked le t x k' t' (iq s) \<noteq> None"
    using locked_result [OF inv assms(3), of le t t'] by (metis option.distinct(1))
  ultimately show ?thesis by auto
qed

definition queued_run :: "(nat, nat) action list" where
  "queued_run = [CallAddAfter 7 0, Advance (AtLock 7 7 0), Tick 1, Advance (AtDecide 7 0), Advance (AtPush 7)]"

lemma queued_run_result:
  "\<exists>s. ix_run Some (\<lambda>_. None) queued_run (ix_start '''') = Some s \<and> i_queue (iq s) = [7]"
  by (simp add: queued_run_def ix_eval)

theorem indexer_Get_safe_witness:
  "\<exists>s y. ix_run Some (\<lambda>_. None) queued_run (ix_start '''') = Some s \<and>
    fst (indexer_Get (iq s)) = Some (Got y) \<and> Some y = Some (7 :: nat)"
  using queued_run_result indexer_Get_safe [of Some "\<lambda>_. None" queued_run _ _ _ _ _ 7 "[]" 7 7]
  unfolding ix_start_def by blast

text \<open>
  C37. A key can starve for ever. After \<open>starving_run\<close> the item waits in \<open>knownPrepareEntries\<close> past its
  time, and whatever clients do that only ask for the present or the future, it is never queued again:
  the entry for time 20 was dropped because of the stale heap entry for time 10, the stale entry was
  ignored when it fired, and every later \<open>AddAfter\<close> finds the known entry and pushes nothing.
\<close>

theorem item_starves:
  assumes "ix_run Some (\<lambda>_. None) (starving_run @ as) (ix_start '''') = Some s"
    and "\<forall>a \<in> set as. patient a"
  shows "7 \<notin> set (i_queue (iq s)) \<and> 7 \<in> dom (knownPrepareEntries (iq s)) \<and>
    (\<exists>e. knownPrepareEntries (iq s) 7 = Some e \<and> entry_readyAt e \<le> i_clk s)"
proof -
  obtain s0 where s0: "ix_run Some (\<lambda>_. None) starving_run (ix_start '''') = Some s0" "starved 7 20 s0"
    using starving_run_starves by blast
  have inv: "ix_inv Some s0"
    using ix_inv_run [OF s0(1)] ix_inv_init unfolding ix_start_def by blast
  have "ix_run Some (\<lambda>_. None) as s0 = Some s"
    using assms(1) s0(1) by (simp add: ix_run_append)
  from starved_run [OF this s0(2) inv assms(2)] have "starved 7 20 s" .
  then show ?thesis by (auto simp: starved_def unscheduled_def)
qed

theorem item_starves_witness:
  "\<exists>s. ix_run Some (\<lambda>_. None)
      (starving_run @ [Tick 30, CallAddAfter 7 0, Advance (AtLock 7 7 30), Loop TakeHeartbeat])
      (ix_start '''') = Some s \<and> 7 \<notin> set (i_queue (iq s)) \<and> 7 \<in> dom (knownPrepareEntries (iq s))"
proof -
  let ?as = "[Tick 30, CallAddAfter 7 0, Advance (AtLock 7 7 30), Loop TakeHeartbeat]"
  obtain s where s: "ix_run Some (\<lambda>_. None) (starving_run @ ?as) (ix_start '''') = Some s"
    using that by (simp add: starving_run_def ix_eval)
  from item_starves [OF this] show ?thesis using s by simp
qed

text \<open>
  The depth gauge of a named indexer queue drifts: one item that is added, pushed, taken by a
  worker and finished leaves the queue empty and the gauge at 2, because \<open>AddAfter\<close> and \<open>push\<close> both
  report an addition and \<open>Get\<close> reports nothing.
\<close>

lemma indexer_depth_drifts:
  "\<exists>s m. ix_run Some (\<lambda>_. None) (queued_run @ [CallGet, CallDone 7]) (ix_start ''q'') = Some s \<and>
    i_queue (iq s) = [] \<and> knownPrepareEntries (iq s) = Map.empty \<and>
    processingEntries (iq s) = Map.empty \<and>
    i_metrics (iq s) = DefaultQueueMetrics m \<and> depth_gauge (calls m) = 2 \<and> adds_counter (calls m) = 2"
  by (simp add: queued_run_def ix_eval default_add_def default_done_def)

end
