(* ===== verification/Parallelizer.thy ===== *)
theory Parallelizer
  imports Prelude
begin

text \<open>
  \<open>ParallelizeUntil\<close> (\<open>pkg/workqueue/parallelizer.go\<close>): the pieces of work are cut into chunks, the
  chunks go through a closed channel, and a number of goroutines process them until the channel is
  empty or the context is cancelled. The preparation is a function on 64-bit integers, with the
  panics of \<open>make\<close> and \<open>WaitGroup.Add\<close> on negative arguments; the goroutines are a step relation.
\<close>

section \<open>Options and preparation\<close>

record options =
  chunkSize :: int

definition WithChunkSize :: "int \<Rightarrow> options \<Rightarrow> options" where
  "WithChunkSize c o' = o'\<lparr>chunkSize := c\<rparr>"

text \<open>Go's integer division truncates toward zero.\<close>

definition go_quot :: "int \<Rightarrow> int \<Rightarrow> int" where
  "go_quot a b = sgn a * sgn b * (\<bar>a\<bar> div \<bar>b\<bar>)"

lemma go_quot_neg: "0 < a \<Longrightarrow> 0 < b \<Longrightarrow> go_quot (- a) b = - (a div b)"
  by (simp add: go_quot_def)

definition ceilDiv :: "int \<Rightarrow> int \<Rightarrow> int" where
  "ceilDiv a b = wrap64 (go_quot (wrap64 (wrap64 (a + b) - 1)) b)"

datatype worker = InRange | InChunk int int | Finished

record par =
  p_pieces :: int
  p_size :: int
  toProcess :: "int list"
  p_workers :: "worker list"
  p_stopped :: bool
  done_pieces :: "int list"

datatype par_start = Returned | Panicked | Started par

definition ParallelizeUntil :: "int \<Rightarrow> int \<Rightarrow> (options \<Rightarrow> options) list \<Rightarrow> par_start" where
  "ParallelizeUntil workers pieces opts =
     (if pieces = 0 then Returned
      else
        let o' = fold (\<lambda>opt. opt) opts \<lparr>chunkSize = 0\<rparr>;
            sz = (if chunkSize o' < 1 then 1 else chunkSize o');
            chunks = ceilDiv pieces sz
        in if chunks < 0 then Panicked
           else
             let workers' = (if chunks < workers then chunks else workers)
             in if workers' < 0 then Panicked
                else Started \<lparr>p_pieces = pieces, p_size = sz, toProcess = [0..chunks - 1],
                              p_workers = replicate (nat workers') InRange, p_stopped = False,
                              done_pieces = []\<rparr>)"

section \<open>The goroutines\<close>

text \<open>The bounds of a chunk.\<close>

definition chunk_start :: "int \<Rightarrow> int \<Rightarrow> int" where
  "chunk_start sz chunk = wrap64 (chunk * sz)"

definition chunk_end :: "int \<Rightarrow> int \<Rightarrow> int \<Rightarrow> int" where
  "chunk_end pieces sz chunk =
     (let e = wrap64 (chunk_start sz chunk + sz) in if e > pieces then pieces else e)"

text \<open>
  One goroutine takes a chunk, does a piece, leaves its inner loop, or returns; the context may be
  cancelled at any time. With \<open>stop\<close> closed, the \<open>select\<close> never takes its default case.
\<close>

inductive par_step :: "par \<Rightarrow> par \<Rightarrow> bool" where
  take_chunk: "toProcess s = c # cs \<Longrightarrow> p_workers s = us @ InRange # vs \<Longrightarrow>
    par_step s (s\<lparr>toProcess := cs, p_workers := us @
      InChunk (chunk_start (p_size s) c) (chunk_end (p_pieces s) (p_size s) c) # vs\<rparr>)"
| range_ends: "toProcess s = [] \<Longrightarrow> p_workers s = us @ InRange # vs \<Longrightarrow>
    par_step s (s\<lparr>p_workers := us @ Finished # vs\<rparr>)"
| do_piece: "p_workers s = us @ InChunk p e # vs \<Longrightarrow> p < e \<Longrightarrow> \<not> p_stopped s \<Longrightarrow>
    par_step s (s\<lparr>p_workers := us @ InChunk (p + 1) e # vs, done_pieces := done_pieces s @ [p]\<rparr>)"
| chunk_ends: "p_workers s = us @ InChunk p e # vs \<Longrightarrow> e \<le> p \<Longrightarrow>
    par_step s (s\<lparr>p_workers := us @ InRange # vs\<rparr>)"
| stopped: "p_workers s = us @ InChunk p e # vs \<Longrightarrow> p < e \<Longrightarrow> p_stopped s \<Longrightarrow>
    par_step s (s\<lparr>p_workers := us @ Finished # vs\<rparr>)"
| cancel: "\<not> p_stopped s \<Longrightarrow> par_step s (s\<lparr>p_stopped := True\<rparr>)"

inductive par_steps :: "nat \<Rightarrow> par \<Rightarrow> par \<Rightarrow> bool" where
  par_refl: "par_steps 0 s s"
| par_snoc: "par_steps n s s' \<Longrightarrow> par_step s' s'' \<Longrightarrow> par_steps (Suc n) s s''"

text \<open>\<open>wg.Wait\<close> returns when all goroutines have returned.\<close>

definition all_finished :: "par \<Rightarrow> bool" where
  "all_finished s \<longleftrightarrow> (\<forall>w \<in> set (p_workers s). w = Finished)"

section \<open>Chunks\<close>

text \<open>The range of arguments for which nothing wraps around.\<close>

definition fits :: "int \<Rightarrow> int \<Rightarrow> bool" where
  "fits pieces sz \<longleftrightarrow> 0 < pieces \<and> 1 \<le> sz \<and> pieces + sz - 1 \<le> max_int64"

lemma ceilDiv_exact:
  assumes "fits a b"
  shows "ceilDiv a b = (a + b - 1) div b"
proof -
  have "in_int64 (a + b)" if "a + b \<noteq> max_int64 + 1"
    using assms that by (auto simp: fits_def in_int64_def min_int64_def max_int64_def)
  then have w: "wrap64 (wrap64 (a + b) - 1) = a + b - 1"
  proof (cases "a + b = max_int64 + 1")
    case True
    then show ?thesis by (simp add: wrap64_def max_int64_def)
  next
    case False
    then have "wrap64 (a + b) = a + b" using \<open>a + b \<noteq> max_int64 + 1 \<Longrightarrow> in_int64 (a + b)\<close> wrap64_id by blast
    moreover have "in_int64 (a + b - 1)"
      using assms by (auto simp: fits_def in_int64_def min_int64_def max_int64_def)
    ultimately show ?thesis by (simp add: wrap64_id)
  qed
  have "go_quot (a + b - 1) b = (a + b - 1) div b"
    using assms by (simp add: go_quot_def fits_def)
  moreover have "0 \<le> (a + b - 1) div b" "(a + b - 1) div b \<le> a + b - 1"
    using assms zdiv_mono2 [of "a + b - 1" 1 b] by (auto simp: fits_def pos_imp_zdiv_nonneg_iff)
  then have "in_int64 ((a + b - 1) div b)"
    using assms by (auto simp: fits_def in_int64_def min_int64_def max_int64_def)
  ultimately show ?thesis by (simp add: ceilDiv_def w wrap64_id)
qed

definition chunk_count :: "int \<Rightarrow> int \<Rightarrow> int" where
  "chunk_count pieces sz = (pieces + sz - 1) div sz"

lemma chunk_count_bounds:
  assumes "fits pieces sz"
  shows "pieces \<le> chunk_count pieces sz * sz" and "(chunk_count pieces sz - 1) * sz < pieces"
    and "0 < chunk_count pieces sz"
proof -
  let ?n = "pieces + sz - 1" and ?q = "chunk_count pieces sz"
  have m: "?n = ?q * sz + ?n mod sz" unfolding chunk_count_def by simp
  have "0 \<le> ?n mod sz" "?n mod sz < sz" using assms by (auto simp: fits_def)
  then show "pieces \<le> ?q * sz" and lt: "(?q - 1) * sz < pieces"
    using m assms by (auto simp: fits_def algebra_simps)
  show "0 < ?q" using assms by (simp add: chunk_count_def fits_def pos_imp_zdiv_pos_iff)
qed

lemma chunk_bounds:
  assumes "fits pieces sz" and "0 \<le> c" and "c < chunk_count pieces sz"
  shows "chunk_start sz c = c * sz" and "chunk_end pieces sz c = min ((c + 1) * sz) pieces"
proof -
  have "c * sz \<le> (chunk_count pieces sz - 1) * sz"
    using assms by (intro mult_right_mono) (auto simp: fits_def)
  also have "\<dots> < pieces" by (rule chunk_count_bounds [OF assms(1)])
  finally have lt: "c * sz < pieces" .
  have r: "in_int64 (c * sz)" "in_int64 (c * sz + sz)"
    using assms lt by (auto simp: fits_def in_int64_def min_int64_def max_int64_def intro: order_trans [of _ 0])
  then show start: "chunk_start sz c = c * sz" by (simp add: chunk_start_def wrap64_id)
  show "chunk_end pieces sz c = min ((c + 1) * sz) pieces"
    using r by (simp add: chunk_end_def start wrap64_id Let_def algebra_simps min_def)
qed

text \<open>The pieces of a chunk that are still to be done, and those of a goroutine.\<close>

definition chunk_pieces :: "int \<Rightarrow> int \<Rightarrow> int \<Rightarrow> int list" where
  "chunk_pieces pieces sz c = [chunk_start sz c..chunk_end pieces sz c - 1]"

fun worker_pieces :: "worker \<Rightarrow> int list" where
  "worker_pieces (InChunk p e) = [p..e - 1]"
| "worker_pieces _ = []"

lemma upto_split3: "a \<le> b \<Longrightarrow> b \<le> c \<Longrightarrow> [a..b - 1] @ [b..c - 1] = [a..c - 1 :: int]"
  using upto_split1 [of a b "c - 1"] by (cases "b = c") auto

lemma chunks_partition:
  assumes fit: "fits pieces sz" and "int n \<le> chunk_count pieces sz"
  shows "concat (map (chunk_pieces pieces sz) [0..int n - 1]) = [0..min (int n * sz) pieces - 1]"
  using assms(2)
proof (induction n)
  case 0
  then show ?case using fit by (simp add: fits_def)
next
  case (Suc n)
  have "int n * sz \<le> (chunk_count pieces sz - 1) * sz"
    using Suc.prems fit by (intro mult_right_mono) (auto simp: fits_def)
  also have "\<dots> < pieces" by (rule chunk_count_bounds [OF fit])
  finally have lt: "int n * sz < pieces" .
  have "[0..int (Suc n) - 1] = [0..int n - 1] @ [int n]" by (simp add: upto_rec2)
  moreover have "chunk_pieces pieces sz (int n) = [int n * sz..min (int (Suc n) * sz) pieces - 1]"
    using chunk_bounds [OF fit, of "int n"] Suc.prems by (simp add: chunk_pieces_def algebra_simps)
  moreover have "min (int n * sz) pieces = int n * sz" using lt by simp
  moreover have "int n * sz \<le> min (int (Suc n) * sz) pieces"
    using lt fit by (simp add: fits_def algebra_simps)
  moreover have "0 \<le> int n * sz" using fit by (simp add: fits_def)
  ultimately show ?case
    using Suc upto_split3 [of 0 "int n * sz" "min (int (Suc n) * sz) pieces"] by simp
qed

lemma chunks_are_pieces:
  assumes "fits pieces sz"
  shows "concat (map (chunk_pieces pieces sz) [0..chunk_count pieces sz - 1]) = [0..pieces - 1]"
  using chunks_partition [OF assms, of "nat (chunk_count pieces sz)"] chunk_count_bounds [OF assms]
  by (simp add: min_def split: if_splits)

section \<open>The work is conserved\<close>

definition all_work :: "par \<Rightarrow> int multiset" where
  "all_work s = mset (done_pieces s) + (\<Sum>w\<leftarrow>p_workers s. mset (worker_pieces w)) +
     (\<Sum>c\<leftarrow>toProcess s. mset (chunk_pieces (p_pieces s) (p_size s) c))"

lemma par_step_frame:
  "par_step s s' \<Longrightarrow> p_pieces s' = p_pieces s \<and> p_size s' = p_size s \<and>
    length (p_workers s') = length (p_workers s) \<and> (p_stopped s \<longrightarrow> p_stopped s')"
  by (cases rule: par_step.cases) auto

lemma par_step_work:
  assumes "par_step s s'"
  shows "all_work s' \<subseteq># all_work s \<and> (\<not> p_stopped s' \<longrightarrow> all_work s' = all_work s)"
  using assms
proof cases
  case (do_piece us p e vs)
  then have "[p..e - 1] = p # [p + 1..e - 1]" by (simp add: upto_rec1)
  with do_piece show ?thesis by (simp add: all_work_def)
qed (auto simp: all_work_def chunk_pieces_def)

text \<open>Unless the context was cancelled, a goroutine returns only when the channel is empty.\<close>

definition par_inv :: "par \<Rightarrow> bool" where
  "par_inv s \<longleftrightarrow> all_work s \<subseteq># mset [0..p_pieces s - 1] \<and>
     (\<not> p_stopped s \<longrightarrow> all_work s = mset [0..p_pieces s - 1] \<and>
       (Finished \<in> set (p_workers s) \<longrightarrow> toProcess s = []))"

lemma par_inv_step:
  assumes "par_step s s'" and "par_inv s"
  shows "par_inv s'"
proof -
  have "Finished \<in> set (p_workers s') \<longrightarrow> toProcess s' = []" if "\<not> p_stopped s'"
    using assms that by (cases rule: par_step.cases) (auto simp: par_inv_def)
  with assms par_step_work [OF assms(1)] par_step_frame [OF assms(1)] show ?thesis
    by (auto simp: par_inv_def intro: subset_mset.order_trans)
qed

lemma par_steps_inv:
  assumes "par_steps n s s'" and "par_inv s"
  shows "par_inv s' \<and> p_pieces s' = p_pieces s \<and> length (p_workers s') = length (p_workers s)"
  using assms by (induction) (auto simp: par_step_frame intro: par_inv_step)

lemma started:
  assumes "ParallelizeUntil workers pieces opts = Started s" and "fits pieces (p_size s)"
  shows "p_pieces s = pieces" and "par_inv s" and "toProcess s = [0..chunk_count pieces (p_size s) - 1]"
    and "int (length (p_workers s)) = min workers (chunk_count pieces (p_size s))"
    and "set (p_workers s) \<subseteq> {InRange}" and "\<not> p_stopped s"
proof -
  note P = assms(1) [unfolded ParallelizeUntil_def Let_def]
  have c: "ceilDiv pieces (p_size s) = chunk_count pieces (p_size s)"
    using ceilDiv_exact [OF assms(2)] by (simp add: chunk_count_def)
  show p: "p_pieces s = pieces" and t: "toProcess s = [0..chunk_count pieces (p_size s) - 1]"
    and w: "set (p_workers s) \<subseteq> {InRange}" and "\<not> p_stopped s"
    using P c by (auto split: if_splits)
  show "int (length (p_workers s)) = min workers (chunk_count pieces (p_size s))"
    using P c by (auto split: if_splits simp: min_def)
  have "set ws \<subseteq> {InRange} \<Longrightarrow> (\<Sum>w\<leftarrow>ws. mset (worker_pieces w)) = {#}" for ws
    by (induction ws) auto
  note this [OF w]
  moreover have "done_pieces s = []" using P by (auto split: if_splits)
  moreover have "(\<Sum>c\<leftarrow>xs. mset (chunk_pieces pieces (p_size s) c)) =
      mset (concat (map (chunk_pieces pieces (p_size s)) xs))" for xs
    by (induction xs) auto
  ultimately have "all_work s = mset [0..pieces - 1]"
    using chunks_are_pieces [OF assms(2)] by (simp add: all_work_def p t)
  moreover have "Finished \<notin> set (p_workers s)" using w by auto
  ultimately show "par_inv s" by (simp add: par_inv_def p)
qed

section \<open>Termination\<close>

fun worker_steps :: "worker \<Rightarrow> nat" where
  "worker_steps InRange = 1"
| "worker_steps (InChunk p e) = length [p..e - 1] + 2"
| "worker_steps Finished = 0"

definition steps_left :: "par \<Rightarrow> nat" where
  "steps_left s = (\<Sum>w\<leftarrow>p_workers s. worker_steps w) +
     (\<Sum>c\<leftarrow>toProcess s. length (chunk_pieces (p_pieces s) (p_size s) c) + 2) +
     (if p_stopped s then 0 else 1)"

lemma par_step_decreases:
  assumes "par_step s s'"
  shows "steps_left s' < steps_left s"
  using assms
proof cases
  case (do_piece us p e vs)
  then have "[p..e - 1] = p # [p + 1..e - 1]" by (simp add: upto_rec1)
  with do_piece show ?thesis by (simp add: steps_left_def)
qed (auto simp: steps_left_def chunk_pieces_def)

lemma par_steps_bound: "par_steps n s s' \<Longrightarrow> n + steps_left s' \<le> steps_left s"
  by (induction rule: par_steps.induct) (auto dest: par_step_decreases)

lemma par_progress:
  assumes "\<not> all_finished s"
  shows "\<exists>s'. par_step s s'"
proof -
  from assms obtain w where "w \<in> set (p_workers s)" "w \<noteq> Finished" by (auto simp: all_finished_def)
  then obtain us vs where w: "p_workers s = us @ w # vs" by (meson split_list)
  show ?thesis
  proof (cases w)
    case InRange
    with w show ?thesis by (cases "toProcess s") (auto intro: take_chunk range_ends)
  next
    case (InChunk p e)
    with w have "p_workers s = us @ InChunk p e # vs" by simp
    note steps = do_piece [OF this] chunk_ends [OF this] stopped [OF this]
    show ?thesis by (cases "p < e"; cases "p_stopped s") (use steps in \<open>auto simp: not_less\<close>)
  qed (use \<open>w \<noteq> Finished\<close> in simp)
qed

lemma started_steps_left:
  assumes "ParallelizeUntil workers pieces opts = Started s" and "fits pieces (p_size s)"
  shows "int (steps_left s) = pieces + 2 * chunk_count pieces (p_size s) +
    min workers (chunk_count pieces (p_size s)) + 1"
proof -
  note S = started [OF assms]
  have "set ws \<subseteq> {InRange} \<Longrightarrow> (\<Sum>w\<leftarrow>ws. worker_steps w) = length ws" for ws
    by (induction ws) auto
  note W = this [OF S(5)]
  have "(\<Sum>c\<leftarrow>xs. length (chunk_pieces pieces (p_size s) c) + 2) =
      length (concat (map (chunk_pieces pieces (p_size s)) xs)) + 2 * length xs" for xs
    by (induction xs) auto
  with S W assms(2) chunk_count_bounds(3) [OF assms(2)] chunks_are_pieces [OF assms(2)]
  show ?thesis by (simp add: steps_left_def fits_def)
qed

lemma submset_of_distinct:
  assumes "mset xs \<subseteq># mset ys" and "distinct ys"
  shows "distinct xs \<and> set xs \<subseteq> set ys"
proof -
  have c: "count (mset xs) x \<le> count (mset ys) x" for x using assms(1) by (simp add: mset_subset_eq_count)
  have "count (mset ys) x \<le> 1" for x using assms(2) by (simp add: distinct_count_atmost_1)
  with c have "count (mset xs) x \<le> 1" for x by (meson le_trans)
  moreover have "set xs \<subseteq> set ys" using assms(1) set_mset_mono by fastforce
  ultimately show ?thesis
    by (auto simp: distinct_count_atmost_1 le_Suc_eq not_in_iff [symmetric])
qed

section \<open>An executable scheduler\<close>

text \<open>\<open>par_sched s i\<close> lets goroutine \<open>i\<close> take its next step.\<close>

definition par_sched :: "par \<Rightarrow> nat \<Rightarrow> par option" where
  "par_sched s i =
     (if i < length (p_workers s) then
        (case p_workers s ! i of
           InRange \<Rightarrow>
             (case toProcess s of
                [] \<Rightarrow> Some (s\<lparr>p_workers := (p_workers s)[i := Finished]\<rparr>)
              | c # cs \<Rightarrow> Some (s\<lparr>toProcess := cs, p_workers := (p_workers s)[i :=
                  InChunk (chunk_start (p_size s) c) (chunk_end (p_pieces s) (p_size s) c)]\<rparr>))
         | InChunk p e \<Rightarrow>
             (if e \<le> p then Some (s\<lparr>p_workers := (p_workers s)[i := InRange]\<rparr>)
              else if p_stopped s then Some (s\<lparr>p_workers := (p_workers s)[i := Finished]\<rparr>)
              else Some (s\<lparr>p_workers := (p_workers s)[i := InChunk (p + 1) e],
                           done_pieces := done_pieces s @ [p]\<rparr>))
         | Finished \<Rightarrow> None)
      else None)"

fun par_run :: "par \<Rightarrow> nat list \<Rightarrow> par option" where
  "par_run s [] = Some s"
| "par_run s (i # is) = (case par_sched s i of None \<Rightarrow> None | Some s' \<Rightarrow> par_run s' is)"

lemma par_sched_sound:
  assumes "par_sched s i = Some s'"
  shows "par_step s s'"
proof -
  from assms have i: "i < length (p_workers s)" by (simp add: par_sched_def split: if_splits)
  let ?us = "take i (p_workers s)" and ?vs = "drop (Suc i) (p_workers s)"
  note w = id_take_nth_drop [OF i] and upd = upd_conv_take_nth_drop [OF i]
  show ?thesis
  proof (cases "p_workers s ! i")
    case InRange
    with assms i w show ?thesis
      by (auto simp: par_sched_def upd split: list.splits
          intro!: take_chunk [where us = ?us and vs = ?vs] range_ends [where us = ?us and vs = ?vs])
  next
    case (InChunk p e)
    with w have "p_workers s = ?us @ InChunk p e # ?vs" by simp
    note steps = do_piece [OF this] chunk_ends [OF this] stopped [OF this]
    show ?thesis using assms i InChunk steps by (auto simp: par_sched_def upd not_le split: if_splits)
  qed (use assms i in \<open>simp add: par_sched_def\<close>)
qed

lemma par_steps_cons: "par_steps n s' s'' \<Longrightarrow> par_step s s' \<Longrightarrow> par_steps (Suc n) s s''"
  by (induction rule: par_steps.induct) (auto intro: par_steps.intros)

lemma par_run_sound: "par_run s is = Some s' \<Longrightarrow> par_steps (length is) s s'"
  by (induction "is" arbitrary: s)
    (auto intro: par_refl par_steps_cons par_sched_sound split: option.splits)

lemmas par_eval = par_sched_def chunk_start_def chunk_end_def wrap64_def Let_def

section \<open>Properties\<close>

text \<open>
  C28. Every piece of work is processed exactly once: at no time has a piece been processed twice or
  a piece outside \<open>[0, pieces)\<close> been processed, and when all goroutines have returned without the
  context having been cancelled, all pieces have been processed.
\<close>

theorem pieces_done_once:
  assumes "ParallelizeUntil workers pieces opts = Started s" and "fits pieces (p_size s)"
    and "1 \<le> workers" and "par_steps n s s'"
  shows "distinct (done_pieces s') \<and> set (done_pieces s') \<subseteq> {0..<pieces} \<and>
    (all_finished s' \<and> \<not> p_stopped s' \<longrightarrow> set (done_pieces s') = {0..<pieces})"
proof -
  note S = started [OF assms(1,2)]
  note I = par_steps_inv [OF assms(4) S(2)]
  have "mset (done_pieces s') \<subseteq># all_work s'" by (simp add: all_work_def)
  also have "all_work s' \<subseteq># mset [0..pieces - 1]" using I S(1) by (auto simp: par_inv_def)
  finally have "distinct (done_pieces s') \<and> set (done_pieces s') \<subseteq> {0..<pieces}"
    using submset_of_distinct by fastforce
  moreover have "set (done_pieces s') = {0..<pieces}" if "all_finished s'" "\<not> p_stopped s'"
  proof -
    have "length (p_workers s') > 0" using I S(4) assms(3) chunk_count_bounds(3) [OF assms(2)] by linarith
    then have "toProcess s' = []" using that I
      by (cases "p_workers s'") (auto simp: par_inv_def all_finished_def)
    moreover have "(\<Sum>w\<leftarrow>ws. mset (worker_pieces w)) = {#}" if "\<forall>w \<in> set ws. w = Finished" for ws
      using that by (induction ws) auto
    ultimately have "all_work s' = mset (done_pieces s')"
      using that by (simp add: all_work_def all_finished_def)
    with I that S(1) have "mset (done_pieces s') = mset [0..pieces - 1]" by (simp add: par_inv_def)
    then have "set (done_pieces s') = set [0..pieces - 1]" by (rule mset_eq_setD)
    also have "\<dots> = {0..<pieces}" by auto
    finally show ?thesis .
  qed
  ultimately show ?thesis by blast
qed

definition two_pieces :: par where
  "two_pieces = \<lparr>p_pieces = 2, p_size = 1, toProcess = [0, 1], p_workers = [InRange, InRange],
     p_stopped = False, done_pieces = []\<rparr>"

definition two_pieces_done :: par where
  "two_pieces_done = \<lparr>p_pieces = 2, p_size = 1, toProcess = [], p_workers = [Finished, Finished],
     p_stopped = False, done_pieces = [1, 0]\<rparr>"

lemma two_pieces_started: "ParallelizeUntil 3 2 [] = Started two_pieces"
proof -
  have "replicate 2 InRange = [InRange, InRange]" unfolding numeral_2_eq_2 by simp
  moreover have "[0..1] = [0, 1::int]" by (simp add: upto_rec1)
  moreover have "ceilDiv 2 1 = 2" by (simp add: ceilDiv_def go_quot_def wrap64_def)
  ultimately show ?thesis by (simp add: ParallelizeUntil_def two_pieces_def Let_def)
qed

lemma two_pieces_run: "par_steps 8 two_pieces two_pieces_done"
proof -
  have "par_run two_pieces [0, 1, 1, 0, 0, 1, 1, 0] = Some two_pieces_done"
    by (simp add: par_eval two_pieces_def two_pieces_done_def)
  from par_run_sound [OF this] show ?thesis by (simp add: eval_nat_numeral)
qed

lemma two_pieces_fit: "fits 2 (p_size two_pieces)"
  by (simp add: fits_def max_int64_def two_pieces_def)

theorem pieces_done_once_witness: "set (done_pieces two_pieces_done) = {0..<2}"
  using pieces_done_once [OF two_pieces_started two_pieces_fit _ two_pieces_run]
  by (simp add: all_finished_def two_pieces_done_def)



text \<open>
  Outside the range of \<open>fits\<close> the sum in \<open>ceilDiv\<close> wraps around to a negative number:
  \<open>ParallelizeUntil\<close> then panics, or returns without having processed any piece.
\<close>

lemma chunk_size_overflows:
  assumes "0 < pieces" and "pieces \<le> max_int64" and "1 \<le> sz" and "sz \<le> max_int64"
    and "\<not> fits pieces sz"
  shows "case ParallelizeUntil workers pieces [WithChunkSize sz] of
      Returned \<Rightarrow> False | Panicked \<Rightarrow> True
    | Started s \<Rightarrow> toProcess s = [] \<and> p_workers s = [] \<and> done_pieces s = []"
proof -
  have "wrap64 (wrap64 (pieces + sz) - 1) = wrap64 (pieces + sz - 1)"
    by (simp add: wrap64_def mod_simps)
  also have "\<dots> = pieces + sz - 1 - 2 ^ 64"
    using assms by (intro wrap64_over) (auto simp: fits_def max_int64_def)
  finally have "wrap64 (wrap64 (pieces + sz) - 1) = pieces + sz - 1 - 2 ^ 64" .
  moreover have "pieces + sz - 1 - 2 ^ 64 < 0" using assms by (simp add: max_int64_def)
  ultimately have q: "go_quot (wrap64 (wrap64 (pieces + sz) - 1)) sz =
      - ((2 ^ 64 - (pieces + sz - 1)) div sz)"
    using assms(3) go_quot_neg [of "2 ^ 64 - (pieces + sz - 1)" sz] by (simp add: add.commute)
  have "0 \<le> (2 ^ 64 - (pieces + sz - 1)) div sz"
    using assms by (intro pos_imp_zdiv_nonneg_iff [THEN iffD2]) (auto simp: max_int64_def)
  moreover have "(2 ^ 64 - (pieces + sz - 1)) div sz \<le> 2 ^ 64 - (pieces + sz - 1)"
    using zdiv_mono2 [of "2 ^ 64 - (pieces + sz - 1)" 1 sz] assms by (auto simp: max_int64_def)
  moreover have "2 ^ 64 - (pieces + sz - 1) \<le> - min_int64"
    using assms by (auto simp: fits_def max_int64_def min_int64_def)
  ultimately have "go_quot (wrap64 (wrap64 (pieces + sz) - 1)) sz \<le> 0"
    and "min_int64 \<le> go_quot (wrap64 (wrap64 (pieces + sz) - 1)) sz"
    unfolding q by linarith+
  then have "ceilDiv pieces sz \<le> 0"
    by (simp add: ceilDiv_def wrap64_id in_int64_def max_int64_def)
  then show ?thesis using assms
    by (auto simp: ParallelizeUntil_def WithChunkSize_def Let_def)
qed

lemma chunk_size_overflows_witness:
  "case ParallelizeUntil 4 5 [WithChunkSize max_int64] of
     Returned \<Rightarrow> False | Panicked \<Rightarrow> True
   | Started s \<Rightarrow> toProcess s = [] \<and> p_workers s = [] \<and> done_pieces s = []"
  by (rule chunk_size_overflows) (simp_all add: fits_def max_int64_def)

end
