(* ===== verification/Executor.thy ===== *)
theory Executor
  imports Queue_Interface
begin

text \<open>
  The executor (\<open>pkg/executor/executor.go\<close>): a rate limited queue of jobs with concurrent workers.
  The queue is \<open>workqueue.TypedRateLimitingInterface\<close> of the library client-go; it is a parameter,
  a record of the methods the executor calls, and the theorems assume of it the contract
  \<open>rate_limited_queue\<close>. The jobs are a parameter as well: what \<open>Run\<close> returns is chosen by the
  environment. \<open>runJob\<close> is cut into steps at its calls on shared state, so that the relation
  \<open>exec_step\<close> has every interleaving of the workers with each other, with \<open>AddJob\<close>, with the
  queue's own goroutine and with the cancellation of the context.
\<close>

section \<open>Interfaces\<close>

record 'j Job =
  isNil :: "'j \<Rightarrow> bool"
  ID :: "'j \<Rightarrow> string"
  AllowConcurrency :: "'j \<Rightarrow> bool"

text \<open>
  The methods of the queue. \<open>jq_drained\<close> says that a call of \<open>ShutDownWithDrain\<close> would return;
  \<open>jq_arrive\<close> relates two states when an item added for later has become ready.
\<close>

record ('j, 'q) jobQueue =
  jq_Add :: "'j \<Rightarrow> 'q \<Rightarrow> 'q"
  jq_Len :: "'q \<Rightarrow> nat"
  jq_Get :: "'q \<Rightarrow> 'j get_result \<times> 'q"
  jq_Done :: "'j \<Rightarrow> 'q \<Rightarrow> 'q"
  jq_ShutDown :: "'q \<Rightarrow> 'q"
  jq_AddRateLimited :: "'j \<Rightarrow> 'q \<Rightarrow> 'q"
  jq_NumRequeues :: "'j \<Rightarrow> 'q \<Rightarrow> nat"
  jq_Forget :: "'j \<Rightarrow> 'q \<Rightarrow> 'q"
  jq_drained :: "'q \<Rightarrow> bool"
  jq_arrive :: "'q \<Rightarrow> 'q \<Rightarrow> bool"

section \<open>Construction\<close>

record executor_Config =
  QueueSize :: int
  Workers :: int
  MaxJobRetries :: int
  BaseRetryDelay :: duration
  RetryJobAfterFailure :: bool
  PerWorkerQPS :: int
  Timeout :: duration

record 'q Executor =
  workers :: int
  maxQueueSize :: int
  maxRetries :: int
  allowRetries :: bool
  timeout :: duration
  runningJobs :: "string \<rightharpoonup> bool"
  e_queue :: 'q

definition maxRetryDelay :: duration where
  "maxRetryDelay = 1200 * second"

datatype executor_error = InvalidConfig | QueueFull int int

text \<open>\<open>mk base max limit burst\<close> is the queue with the maximum of the two limiters.\<close>

definition executor_New ::
    "(duration \<Rightarrow> duration \<Rightarrow> int \<Rightarrow> int \<Rightarrow> 'q) \<Rightarrow> executor_Config \<Rightarrow> executor_error + 'q Executor" where
  "executor_New mk c =
     (if QueueSize c = 0 \<or> Workers c = 0 \<or> BaseRetryDelay c = 0 \<or> Timeout c = 0 \<or> PerWorkerQPS c = 0
      then Inl InvalidConfig
      else Inr \<lparr>workers = Workers c, maxQueueSize = QueueSize c, maxRetries = MaxJobRetries c,
                allowRetries = RetryJobAfterFailure c, timeout = Timeout c, runningJobs = Map.empty,
                e_queue = mk (BaseRetryDelay c) maxRetryDelay (wrap64 (Workers c * PerWorkerQPS c)) (QueueSize c)\<rparr>)"

section \<open>Job status and requeueing\<close>

definition setJobStatus :: "'j Job \<Rightarrow> 'j \<Rightarrow> bool \<Rightarrow> 'q Executor \<Rightarrow> 'q Executor" where
  "setJobStatus jm j status e =
     (if status then e\<lparr>runningJobs := (runningJobs e)(ID jm j \<mapsto> True)\<rparr>
      else e\<lparr>runningJobs := (runningJobs e)(ID jm j := None)\<rparr>)"

definition setJobRunning :: "'j Job \<Rightarrow> 'j \<Rightarrow> 'q Executor \<Rightarrow> 'q Executor" where
  "setJobRunning jm j e = setJobStatus jm j True e"

definition setJobFinished :: "'j Job \<Rightarrow> 'j \<Rightarrow> 'q Executor \<Rightarrow> 'q Executor" where
  "setJobFinished jm j e = setJobStatus jm j False e"

definition getJobStatus :: "'j Job \<Rightarrow> 'j \<Rightarrow> 'q Executor \<Rightarrow> bool" where
  "getJobStatus jm j e = (case runningJobs e (ID jm j) of None \<Rightarrow> False | Some v \<Rightarrow> v)"

definition requeueJob :: "('j, 'q) jobQueue \<Rightarrow> 'j \<Rightarrow> 'q Executor \<Rightarrow> 'q Executor" where
  "requeueJob Q j e =
     (if int (jq_NumRequeues Q j (e_queue e)) < maxRetries e
      then e\<lparr>e_queue := jq_AddRateLimited Q j (e_queue e)\<rparr>
      else e\<lparr>e_queue := jq_Forget Q j (e_queue e)\<rparr>)"

text \<open>\<open>AddJob\<close> on a nil job panics: both log messages call \<open>j.Type()\<close>.\<close>

datatype addjob_result = AddJobPanic | AddJobErr executor_error | AddJobOk

definition AddJob ::
    "('j, 'q) jobQueue \<Rightarrow> 'j Job \<Rightarrow> 'j \<Rightarrow> 'q Executor \<Rightarrow> addjob_result \<times> 'q Executor" where
  "AddJob Q jm j e =
     (if int (jq_Len Q (e_queue e)) \<ge> maxQueueSize e
      then (if isNil jm j then AddJobPanic
            else AddJobErr (QueueFull (int (jq_Len Q (e_queue e))) (maxQueueSize e)), e)
      else (if isNil jm j then AddJobPanic else AddJobOk, e\<lparr>e_queue := jq_Add Q j (e_queue e)\<rparr>))"

section \<open>Workers\<close>

text \<open>Where a worker stands in \<open>runJob\<close>; the flag after \<open>Run\<close> says whether it returned an error.\<close>

datatype 'j wpc =
    AtTop
  | AtGet
  | Picked 'j
  | Starting 'j
  | InRun 'j
  | Ran 'j bool
  | Judging 'j bool
  | Returning 'j bool
  | Exited

datatype ctx_err = Canceled | DeadlineExceeded

text \<open>
  One step of \<open>runJob\<close>, and of the loop around it. \<open>ctx\<close> says whether the executor's context is
  cancelled, \<open>err\<close> whether \<open>Run\<close> returns an error, \<open>terr\<close> is \<open>timeoutCtx.Err()\<close>. There is no step
  while \<open>Get\<close> waits, and none after the worker has returned.
\<close>

fun runJob_step ::
    "('j, 'q) jobQueue \<Rightarrow> 'j Job \<Rightarrow> bool \<Rightarrow> bool \<Rightarrow> ctx_err option \<Rightarrow> 'j wpc \<Rightarrow> 'q Executor \<Rightarrow>
      ('j wpc \<times> 'q Executor) option" where
  "runJob_step Q jm ctx err terr AtTop e = Some (if ctx then Exited else AtGet, e)"
| "runJob_step Q jm ctx err terr AtGet e =
     (case jq_Get Q (e_queue e) of
        (Blocked, q) \<Rightarrow> None
      | (Quit, q) \<Rightarrow> Some (Exited, e\<lparr>e_queue := q\<rparr>)
      | (Got j, q) \<Rightarrow> Some (Picked j, e\<lparr>e_queue := q\<rparr>))"
| "runJob_step Q jm ctx err terr (Picked j) e =
     (if isNil jm j then Some (Returning j True, e)
      else if \<not> AllowConcurrency jm j \<and> getJobStatus jm j e then Some (Returning j True, requeueJob Q j e)
      else Some (Starting j, e))"
| "runJob_step Q jm ctx err terr (Starting j) e = Some (InRun j, setJobRunning jm j e)"
| "runJob_step Q jm ctx err terr (InRun j) e = Some (Ran j err, e)"
| "runJob_step Q jm ctx err terr (Ran j failed) e = Some (Judging j failed, setJobFinished jm j e)"
| "runJob_step Q jm ctx err terr (Judging j failed) e =
     (if \<not> failed \<and> terr = None
      then Some (Returning j True, e\<lparr>e_queue := jq_Forget Q j (e_queue e)\<rparr>)
      else if terr = Some Canceled then Some (Returning j False, e)
      else Some (Returning j True, if allowRetries e then requeueJob Q j e else e))"
| "runJob_step Q jm ctx err terr (Returning j again) e =
     Some (if again then AtTop else Exited, e\<lparr>e_queue := jq_Done Q j (e_queue e)\<rparr>)"
| "runJob_step Q jm ctx err terr Exited e = None"

text \<open>
  The error of the job's context: it is cancelled when its parent is, unless its deadline had
  passed before, and only its parent cancels it.
\<close>

definition ctx_ok :: "bool \<Rightarrow> ctx_err option \<Rightarrow> bool" where
  "ctx_ok ctx terr \<longleftrightarrow> (ctx \<longrightarrow> terr \<noteq> None) \<and> (terr = Some Canceled \<longrightarrow> ctx)"

section \<open>The running executor\<close>

datatype main_pc = Serving | Draining | Successful | TimedOut

record ('j, 'q) exec_sys =
  xe :: "'q Executor"
  xw :: "'j wpc list"
  cancelled :: bool
  xmain :: main_pc

text \<open>\<open>RunJobs\<close> starts the workers; \<open>WaitGroup.Add\<close> panics on a negative number of them.\<close>

definition RunJobs :: "'q Executor \<Rightarrow> ('j, 'q) exec_sys option" where
  "RunJobs e =
     (if workers e < 0 then None
      else Some \<lparr>xe = e, xw = replicate (nat (workers e)) AtTop, cancelled = False, xmain = Serving\<rparr>)"

text \<open>
  The steps: a worker's, and those around it. \<open>RunJobs\<close> itself waits for the context, shuts the
  queue down, and returns when all workers have returned and the queue is drained, or after the
  timeout.
\<close>

definition worker_step ::
    "('j, 'q) jobQueue \<Rightarrow> 'j Job \<Rightarrow> nat \<Rightarrow> bool \<Rightarrow> ctx_err option \<Rightarrow> ('j, 'q) exec_sys \<Rightarrow> ('j, 'q) exec_sys option" where
  "worker_step Q jm i err terr s =
     (if i < length (xw s) \<and> ctx_ok (cancelled s) terr then
        (case runJob_step Q jm (cancelled s) err terr (xw s ! i) (xe s) of
           None \<Rightarrow> None
         | Some (w, e) \<Rightarrow> Some (s\<lparr>xw := (xw s)[i := w], xe := e\<rparr>))
      else None)"

inductive env_step :: "('j, 'q) jobQueue \<Rightarrow> 'j Job \<Rightarrow> ('j, 'q) exec_sys \<Rightarrow> ('j, 'q) exec_sys \<Rightarrow> bool"
  for Q :: "('j, 'q) jobQueue" and jm :: "'j Job" where
  add_job: "AddJob Q jm j (xe s) = (r, e) \<Longrightarrow> env_step Q jm s (s\<lparr>xe := e\<rparr>)"
| arrives: "jq_arrive Q (e_queue (xe s)) q \<Longrightarrow> env_step Q jm s (s\<lparr>xe := (xe s)\<lparr>e_queue := q\<rparr>\<rparr>)"
| cancels: "env_step Q jm s (s\<lparr>cancelled := True\<rparr>)"
| shuts_down: "cancelled s \<Longrightarrow> xmain s = Serving \<Longrightarrow>
    env_step Q jm s (s\<lparr>xmain := Draining, xe := (xe s)\<lparr>e_queue := jq_ShutDown Q (e_queue (xe s))\<rparr>\<rparr>)"
| succeeds: "xmain s = Draining \<Longrightarrow> set (xw s) \<subseteq> {Exited} \<Longrightarrow> jq_drained Q (e_queue (xe s)) \<Longrightarrow>
    env_step Q jm s (s\<lparr>xmain := Successful\<rparr>)"
| times_out: "xmain s = Draining \<Longrightarrow> env_step Q jm s (s\<lparr>xmain := TimedOut\<rparr>)"

text \<open>Runs, with the number of steps the workers take in them.\<close>

inductive exec_run ::
    "('j, 'q) jobQueue \<Rightarrow> 'j Job \<Rightarrow> nat \<Rightarrow> ('j, 'q) exec_sys \<Rightarrow> ('j, 'q) exec_sys \<Rightarrow> bool"
  for Q :: "('j, 'q) jobQueue" and jm :: "'j Job" where
  exec_refl: "exec_run Q jm 0 s s"
| exec_worker: "exec_run Q jm n s s' \<Longrightarrow> worker_step Q jm i err terr s' = Some s'' \<Longrightarrow>
    exec_run Q jm (Suc n) s s''"
| exec_around: "exec_run Q jm n s s' \<Longrightarrow> env_step Q jm s' s'' \<Longrightarrow> exec_run Q jm n s s''"

section \<open>The invariant\<close>

text \<open>The job a worker has taken from the queue, and the job whose run it has marked.\<close>

fun held :: "'j wpc \<Rightarrow> 'j option" where
  "held (Picked j) = Some j"
| "held (Starting j) = Some j"
| "held (InRun j) = Some j"
| "held (Ran j b) = Some j"
| "held (Judging j b) = Some j"
| "held (Returning j b) = Some j"
| "held _ = None"

fun marking :: "'j wpc \<Rightarrow> 'j option" where
  "marking (InRun j) = Some j"
| "marking (Ran j b) = Some j"
| "marking _ = None"

definition held_jobs :: "'j wpc list \<Rightarrow> 'j set" where
  "held_jobs ws = {j. \<exists>i < length ws. held (ws ! i) = Some j}"

definition held_once :: "'j wpc list \<Rightarrow> bool" where
  "held_once ws \<longleftrightarrow>
     (\<forall>i < length ws. \<forall>k < length ws. held (ws ! i) \<noteq> None \<and> held (ws ! i) = held (ws ! k) \<longrightarrow> i = k)"

lemma held_same:
  assumes "i < length ws" and "held w = held (ws ! i)"
  shows "held_jobs (ws[i := w]) = held_jobs ws" and "held_once ws \<Longrightarrow> held_once (ws[i := w])"
proof -
  have eq: "held (ws[i := w] ! k) = held (ws ! k)" for k
    using assms by (cases "k = i") simp_all
  show "held_jobs (ws[i := w]) = held_jobs ws" by (simp add: held_jobs_def eq)
  show "held_once ws \<Longrightarrow> held_once (ws[i := w])" by (simp add: held_once_def eq)
qed

lemma held_takes:
  assumes "i < length ws" and "held (ws ! i) = None" and "held w = Some j" and "j \<notin> held_jobs ws"
  shows "held_jobs (ws[i := w]) = insert j (held_jobs ws)" and "held_once ws \<Longrightarrow> held_once (ws[i := w])"
proof -
  have "x \<in> held_jobs (ws[i := w]) \<longleftrightarrow> x = j \<or> x \<in> held_jobs ws" for x
    unfolding held_jobs_def mem_Collect_eq length_list_update using assms(1-3)
    by (metis nth_list_update option.inject option.distinct(1))
  then show "held_jobs (ws[i := w]) = insert j (held_jobs ws)" by blast
  show "held_once ws \<Longrightarrow> held_once (ws[i := w])"
    using assms by (auto simp: held_once_def held_jobs_def nth_list_update)
qed

lemma held_drops:
  assumes "i < length ws" and "held (ws ! i) = Some j" and "held w = None" and "held_once ws"
  shows "held_jobs (ws[i := w]) = held_jobs ws - {j}" and "held_once (ws[i := w])"
proof -
  have "held (ws ! k) \<noteq> Some j" if "k < length ws" "k \<noteq> i" for k
    using assms that by (auto simp: held_once_def)
  then have "x \<in> held_jobs (ws[i := w]) \<longleftrightarrow> x \<noteq> j \<and> x \<in> held_jobs ws" for x
    unfolding held_jobs_def mem_Collect_eq length_list_update using assms(1-3)
    by (metis nth_list_update option.inject option.distinct(1))
  then show "held_jobs (ws[i := w]) = held_jobs ws - {j}" by blast
  show "held_once (ws[i := w])" using assms by (auto simp: held_once_def nth_list_update)
qed

text \<open>Every mark in \<open>runningJobs\<close> belongs to a worker that is executing a job with that id.\<close>

definition marks_ok :: "'j Job \<Rightarrow> 'j wpc list \<Rightarrow> 'q Executor \<Rightarrow> bool" where
  "marks_ok jm ws e \<longleftrightarrow>
     (\<forall>k v. runningJobs e k = Some v \<longrightarrow> v \<and> (\<exists>w \<in> set ws. \<exists>j. marking w = Some j \<and> ID jm j = k))"

lemma marks_queue [simp]: "marks_ok jm ws (e\<lparr>e_queue := q\<rparr>) = marks_ok jm ws e"
  by (simp add: marks_ok_def)

lemma requeueJob_frame [simp]:
  "runningJobs (requeueJob Q j e) = runningJobs e" "maxRetries (requeueJob Q j e) = maxRetries e"
  by (simp_all add: requeueJob_def)

lemma marks_update:
  assumes "marks_ok jm ws e" and "i < length ws"
    and "\<And>k v. runningJobs e' k = Some v \<Longrightarrow> runningJobs e k = Some v \<and>
        (\<forall>j. marking (ws ! i) = Some j \<and> ID jm j = k \<longrightarrow> marking w = Some j) \<or>
      v \<and> (\<exists>j. marking w = Some j \<and> ID jm j = k)"
  shows "marks_ok jm (ws[i := w]) e'"
  unfolding marks_ok_def
proof (intro allI impI)
  fix k v assume "runningJobs e' k = Some v"
  from assms(3) [OF this] show "v \<and> (\<exists>w' \<in> set (ws[i := w]). \<exists>j. marking w' = Some j \<and> ID jm j = k)"
  proof
    assume new: "v \<and> (\<exists>j. marking w = Some j \<and> ID jm j = k)"
    have "w \<in> set (ws[i := w])" using assms(2) by (rule set_update_memI)
    with new show ?thesis by blast
  next
    assume old: "runningJobs e k = Some v \<and> (\<forall>j. marking (ws ! i) = Some j \<and> ID jm j = k \<longrightarrow> marking w = Some j)"
    with assms(1) obtain n j where "v" "n < length ws" "marking (ws ! n) = Some j" "ID jm j = k"
      by (force simp: marks_ok_def in_set_conv_nth)
    with old have "marking (ws[i := w] ! n) = Some j" "n < length (ws[i := w])" by (cases "n = i"; simp)+
    then show ?thesis using \<open>v\<close> \<open>ID jm j = k\<close> by (metis nth_mem)
  qed
qed

lemma runJob_step_marks:
  assumes "runJob_step Q jm ctx err terr (ws ! i) e = Some (w, e')" and "i < length ws"
    and "marks_ok jm ws e"
  shows "marks_ok jm (ws[i := w]) e'"
proof (rule marks_update [OF assms(3,2)])
  fix k v assume "runningJobs e' k = Some v"
  then show "runningJobs e k = Some v \<and>
      (\<forall>j. marking (ws ! i) = Some j \<and> ID jm j = k \<longrightarrow> marking w = Some j) \<or>
    v \<and> (\<exists>j. marking w = Some j \<and> ID jm j = k)"
    using assms(1)
    by (cases "ws ! i") (auto simp: setJobRunning_def setJobFinished_def setJobStatus_def
        split: get_result.splits prod.splits if_splits)
qed

section \<open>What the executor relies on\<close>

locale executor_queue =
  rate_limited_queue "jq_Add Q" "jq_Get Q" "jq_Done Q" "jq_ShutDown Q" "jq_Len Q" stopping ready
    running again invar "jq_AddRateLimited Q" "jq_Forget Q" "jq_NumRequeues Q" "jq_arrive Q"
  for Q :: "('j, 'q) jobQueue" and stopping ready running again invar +
  assumes drained: "invar q \<Longrightarrow> jq_drained Q q \<longleftrightarrow> running q = {}"
begin

definition queue_ok :: "'j wpc list \<Rightarrow> int \<Rightarrow> 'q \<Rightarrow> bool" where
  "queue_ok ws m q \<longleftrightarrow> invar q \<and> running q = held_jobs ws \<and> held_once ws \<and>
     (\<forall>j. jq_NumRequeues Q j q \<le> nat m)"

lemma requeue_ok:
  assumes "queue_ok ws (maxRetries e) (e_queue e)"
  shows "queue_ok ws (maxRetries e) (e_queue (requeueJob Q j e))"
proof (cases "int (jq_NumRequeues Q j (e_queue e)) < maxRetries e")
  case True
  then have "Suc (jq_NumRequeues Q j (e_queue e)) \<le> nat (maxRetries e)" by linarith
  with True assms show ?thesis
    by (simp add: requeueJob_def queue_ok_def invar_limited obs_limited num_limited)
next
  case False
  with assms show ?thesis by (simp add: requeueJob_def queue_ok_def invar_forget obs_forget num_forget)
qed

lemma forget_ok: "queue_ok ws m q \<Longrightarrow> queue_ok ws m (jq_Forget Q j q)"
  by (simp add: queue_ok_def invar_forget obs_forget num_forget)

lemma queue_ok_held:
  assumes "queue_ok ws m q" and "i < length ws" and "held w = held (ws ! i)"
  shows "queue_ok (ws[i := w]) m q"
  using assms held_same [OF assms(2,3)] by (simp add: queue_ok_def)

lemma get_ok:
  assumes "queue_ok ws m q" and "i < length ws" and "held (ws ! i) = None"
    and "jq_Get Q q = (Got j, q')"
  shows "queue_ok (ws[i := Picked j]) m q'"
proof -
  from assms have inv: "invar q" by (simp add: queue_ok_def)
  have "j \<notin> held_jobs ws" using got_not_running [OF inv assms(4)] assms(1) by (simp add: queue_ok_def)
  note h = held_takes [OF assms(2,3) _ this, of "Picked j"]
  show ?thesis
    using assms h got_not_running [OF inv assms(4)] got_obs [OF inv assms(4)] num_get [OF assms(4)]
    by (simp add: queue_ok_def)
qed

lemma done_ok:
  assumes "queue_ok ws m q" and "i < length ws" and "held (ws ! i) = Some j" and "held w = None"
  shows "queue_ok (ws[i := w]) m (jq_Done Q j q)"
proof -
  have "j \<in> running q" using assms by (auto simp: queue_ok_def held_jobs_def)
  with assms held_drops [OF assms(2,3,4)] show ?thesis
    by (simp add: queue_ok_def invar_fin running_fin num_fin)
qed

lemma runJob_step_queue:
  assumes "runJob_step Q jm ctx err terr (ws ! i) e = Some (w, e')" and "i < length ws"
    and "queue_ok ws (maxRetries e) (e_queue e)"
  shows "queue_ok (ws[i := w]) (maxRetries e') (e_queue e')"
proof (cases "ws ! i")
  case AtGet
  have inv: "invar (e_queue e)" using assms(3) by (simp add: queue_ok_def)
  show ?thesis
  proof (cases rule: get_result_cases [OF inv])
    case (1 j js q')
    with assms AtGet get_ok [OF assms(3,2) _ 1(2)] show ?thesis by auto
  qed (use assms AtGet in \<open>auto intro: queue_ok_held\<close>)
next
  case (Returning j b)
  with assms done_ok [OF assms(3,2), of j] show ?thesis by auto
qed (use assms requeue_ok [OF assms(3)] forget_ok [OF assms(3)] in
    \<open>auto simp: setJobRunning_def setJobFinished_def setJobStatus_def intro!: queue_ok_held split: if_splits\<close>)

end

section \<open>Runs of the executor\<close>

lemma runJob_step_frame:
  assumes "runJob_step Q jm ctx err terr w e = Some (w', e')"
  shows "maxRetries e' = maxRetries e"
  using assms
  by (cases w) (auto simp: setJobRunning_def setJobFinished_def setJobStatus_def
      split: prod.splits get_result.splits if_splits)

lemma worker_step_elim:
  assumes "worker_step Q jm i err terr s = Some s'"
  obtains w e where "i < length (xw s)" "ctx_ok (cancelled s) terr"
    "runJob_step Q jm (cancelled s) err terr (xw s ! i) (xe s) = Some (w, e)"
    "s' = s\<lparr>xw := (xw s)[i := w], xe := e\<rparr>"
  using assms by (auto simp: worker_step_def split: if_splits option.splits)

lemma AddJob_frame:
  assumes "AddJob Q jm j e = (r, e')"
  shows "e' = e \<or> e' = e\<lparr>e_queue := jq_Add Q j (e_queue e)\<rparr>"
  using assms by (auto simp: AddJob_def split: if_splits)

lemma RunJobs_start:
  assumes "RunJobs e = Some s"
  shows "xe s = e" and "set (xw s) \<subseteq> {AtTop}" and "int (length (xw s)) = workers e"
    and "\<not> cancelled s" and "xmain s = Serving"
  using assms by (auto simp: RunJobs_def split: if_splits)

text \<open>After the cancellation every step of a worker brings it nearer to its end.\<close>

fun steps_to_exit :: "'j wpc \<Rightarrow> nat" where
  "steps_to_exit Exited = 0"
| "steps_to_exit AtTop = 1"
| "steps_to_exit (Returning j b) = 2"
| "steps_to_exit (Judging j b) = 3"
| "steps_to_exit (Ran j b) = 4"
| "steps_to_exit (InRun j) = 5"
| "steps_to_exit (Starting j) = 6"
| "steps_to_exit (Picked j) = 7"
| "steps_to_exit AtGet = 8"

lemma steps_to_exit_bound: "steps_to_exit w \<le> 8"
  by (cases w) auto

lemma runJob_step_exit:
  assumes "runJob_step Q jm True err terr w e = Some (w', e')"
  shows "steps_to_exit w' < steps_to_exit w"
  using assms by (cases w) (auto split: prod.splits get_result.splits if_splits)

definition to_exit :: "('j, 'q) exec_sys \<Rightarrow> nat" where
  "to_exit s = (\<Sum>w\<leftarrow>xw s. steps_to_exit w)"

lemma to_exit_bound: "to_exit s \<le> 8 * length (xw s)"
proof -
  have "(\<Sum>w\<leftarrow>ws. steps_to_exit w) \<le> 8 * length ws" for ws :: "'a wpc list"
    by (induction ws) (auto intro: order_trans [OF add_mono] simp: steps_to_exit_bound)
  then show ?thesis by (simp add: to_exit_def)
qed

lemma worker_step_exit:
  assumes "worker_step Q jm i err terr s = Some s'" and "cancelled s"
  shows "to_exit s' < to_exit s"
  using assms(1)
proof (rule worker_step_elim)
  fix w e assume i: "i < length (xw s)" and s': "s' = s\<lparr>xw := (xw s)[i := w], xe := e\<rparr>"
    and "runJob_step Q jm (cancelled s) err terr (xw s ! i) (xe s) = Some (w, e)"
  with assms(2) have lt: "steps_to_exit w < steps_to_exit (xw s ! i)" by (auto dest: runJob_step_exit)
  have "to_exit s = (\<Sum>v\<leftarrow>take i (xw s) @ xw s ! i # drop (Suc i) (xw s). steps_to_exit v)"
    using id_take_nth_drop [OF i] by (simp add: to_exit_def)
  moreover have "to_exit s' = (\<Sum>v\<leftarrow>take i (xw s) @ w # drop (Suc i) (xw s). steps_to_exit v)"
    using upd_conv_take_nth_drop [OF i] by (simp add: to_exit_def s')
  ultimately show ?thesis using lt by simp
qed

lemma env_step_frame:
  "env_step Q jm s s' \<Longrightarrow> xw s' = xw s \<and> (cancelled s \<longrightarrow> cancelled s') \<and> maxRetries (xe s') = maxRetries (xe s)"
  by (cases rule: env_step.cases) (auto dest: AddJob_frame)

lemma exec_run_frame:
  "exec_run Q jm n s s' \<Longrightarrow> maxRetries (xe s') = maxRetries (xe s) \<and> length (xw s') = length (xw s)"
  by (induction rule: exec_run.induct)
    (auto dest: env_step_frame runJob_step_frame elim!: worker_step_elim)

lemma exec_run_exit:
  assumes "exec_run Q jm n s s'" and "cancelled s"
  shows "cancelled s' \<and> n + to_exit s' \<le> to_exit s"
  using assms
proof (induction rule: exec_run.induct)
  case (exec_worker n s s' i err terr s'')
  then have "to_exit s'' < to_exit s'" "cancelled s''"
    by (auto intro: worker_step_exit elim: worker_step_elim)
  with exec_worker show ?case by simp
next
  case (exec_around n s s' s'')
  then show ?case using env_step_frame [of Q jm s' s''] by (simp add: to_exit_def)
qed simp

context executor_queue
begin

definition exec_inv :: "'j Job \<Rightarrow> ('j, 'q) exec_sys \<Rightarrow> bool" where
  "exec_inv jm s \<longleftrightarrow> queue_ok (xw s) (maxRetries (xe s)) (e_queue (xe s)) \<and>
     marks_ok jm (xw s) (xe s) \<and>
     (xmain s \<noteq> Serving \<longrightarrow> cancelled s \<and> stopping (e_queue (xe s)))"

lemma runJob_step_stopping:
  assumes "runJob_step Q jm ctx err terr (ws ! i) e = Some (w, e')" and "i < length ws"
    and "queue_ok ws (maxRetries e) (e_queue e)"
  shows "stopping (e_queue e') = stopping (e_queue e)"
proof (cases "ws ! i")
  case AtGet
  have inv: "invar (e_queue e)" using assms(3) by (simp add: queue_ok_def)
  show ?thesis by (cases rule: get_result_cases [OF inv]) (use assms AtGet in auto)
next
  case (Returning j b)
  then have "j \<in> running (e_queue e)" using assms by (auto simp: queue_ok_def held_jobs_def)
  with Returning assms show ?thesis by (auto simp: stopping_fin queue_ok_def)
qed (use assms in \<open>auto simp: setJobRunning_def setJobFinished_def setJobStatus_def requeueJob_def
    obs_forget obs_limited queue_ok_def split: if_splits\<close>)

lemma exec_inv_worker:
  assumes "worker_step Q jm i err terr s = Some s'" and "exec_inv jm s"
  shows "exec_inv jm s'"
  using assms(1)
proof (rule worker_step_elim)
  fix w e assume i: "i < length (xw s)" and s': "s' = s\<lparr>xw := (xw s)[i := w], xe := e\<rparr>"
    and r: "runJob_step Q jm (cancelled s) err terr (xw s ! i) (xe s) = Some (w, e)"
  show ?thesis
    using assms(2) runJob_step_queue [OF r i] runJob_step_marks [OF r i] runJob_step_stopping [OF r i]
    by (simp add: exec_inv_def s')
qed

lemma add_ok: "queue_ok ws m q \<Longrightarrow> queue_ok ws m (jq_Add Q j q)"
  by (simp add: queue_ok_def invar_add running_add num_add)

lemma stop_ok: "queue_ok ws m q \<Longrightarrow> queue_ok ws m (jq_ShutDown Q q) \<and> stopping (jq_ShutDown Q q)"
  by (simp add: queue_ok_def invar_stop stop_obs num_stop)

lemma arrive_ok:
  "jq_arrive Q q q' \<Longrightarrow> queue_ok ws m q \<Longrightarrow> queue_ok ws m q' \<and> stopping q' = stopping q"
  using obs_arrive [of q q'] by (auto simp: queue_ok_def invar_arrive num_arrive)

lemma exec_inv_env:
  assumes "env_step Q jm s s'" and "exec_inv jm s"
  shows "exec_inv jm s'"
  using assms
proof cases
  case (add_job j r e)
  have "queue_ok (xw s) (maxRetries (xe s)) (e_queue (xe s))" using assms(2) by (simp add: exec_inv_def)
  then have "stopping (jq_Add Q j (e_queue (xe s))) = stopping (e_queue (xe s))"
    by (simp add: queue_ok_def stopping_add)
  with add_job assms(2) AddJob_frame [OF add_job(2)] show ?thesis
    by (auto simp: exec_inv_def add_ok)
next
  case (arrives q)
  with assms(2) arrive_ok [OF arrives(2)] show ?thesis by (auto simp: exec_inv_def)
next
  case shuts_down
  with assms(2) stop_ok show ?thesis by (auto simp: exec_inv_def)
qed (auto simp: exec_inv_def)

lemma exec_inv_run: "exec_run Q jm n s s' \<Longrightarrow> exec_inv jm s \<Longrightarrow> exec_inv jm s'"
  by (induction rule: exec_run.induct) (auto intro: exec_inv_worker exec_inv_env)

lemma exec_inv_start:
  assumes "RunJobs e = Some s" and "runningJobs e = Map.empty" and "invar (e_queue e)"
    and "running (e_queue e) = {}" and "\<And>j. jq_NumRequeues Q j (e_queue e) = 0"
  shows "exec_inv jm s"
proof -
  have "held (xw s ! i) = None" if "i < length (xw s)" for i
    using RunJobs_start(2) [OF assms(1)] nth_mem [OF that] by auto
  then show ?thesis
    using RunJobs_start [OF assms(1)] assms(2-)
    by (auto simp: exec_inv_def queue_ok_def held_jobs_def held_once_def marks_ok_def)
qed

lemma worker_enabled:
  assumes "exec_inv jm s" and "xmain s \<noteq> Serving" and "i < length (xw s)" and "xw s ! i \<noteq> Exited"
  shows "\<exists>s'. worker_step Q jm i err (Some Canceled) s = Some s'"
proof -
  have c: "cancelled s" "stopping (e_queue (xe s))" "invar (e_queue (xe s))"
    using assms(1,2) by (auto simp: exec_inv_def queue_ok_def)
  have "runJob_step Q jm True err (Some Canceled) (xw s ! i) (xe s) \<noteq> None"
  proof (cases "xw s ! i")
    case AtGet
    show ?thesis by (cases rule: get_result_cases [OF c(3)]) (use c AtGet in auto)
  qed (use assms(4) in auto)
  with c assms(3) show ?thesis by (auto simp: worker_step_def ctx_ok_def)
qed

lemma exited_drained:
  assumes "exec_inv jm s" and "set (xw s) \<subseteq> {Exited}"
  shows "jq_drained Q (e_queue (xe s))"
proof -
  have "held_jobs (xw s) = {}" using assms(2) by (fastforce simp: held_jobs_def dest: nth_mem)
  with assms(1) drained show ?thesis by (simp add: exec_inv_def queue_ok_def)
qed

end

end
