(* ===== verification/Executor_Properties.thy ===== *)
theory Executor_Properties
  imports Executor Rate_Limiting_Queue
begin

text \<open>
  The properties of the executor, for every queue that keeps the contract, and two runs that show
  how jobs with equal ids interfere. The rate limiting queue of \<open>pkg/workqueue\<close> keeps the contract;
  it is the queue of the concrete runs.
\<close>

section \<open>The package's own queue\<close>

definition repo_queue ::
    "(float64 \<Rightarrow> int) \<Rightarrow> ('b \<Rightarrow> duration \<times> 'b) \<Rightarrow> time \<Rightarrow> bool \<Rightarrow> ('j, ('j, 'b) rateLimitingType) jobQueue" where
  "repo_queue cvt reserve now pick =
     \<lparr>jq_Add = rl_Add now, jq_Len = rl_Len, jq_Get = rl_Get now, jq_Done = rl_Done now,
      jq_ShutDown = rl_ShutDown, jq_AddRateLimited = \<lambda>x q. fst (AddRateLimited cvt reserve now pick x q),
      jq_NumRequeues = queue_NumRequeues, jq_Forget = queue_Forget,
      jq_drained = \<lambda>q. \<not> isProcessing (Interface (DelayingInterface q)), jq_arrive = rl_arrive\<rparr>"

interpretation rlx: executor_queue "repo_queue cvt reserve now pick"
  "\<lambda>d. ShuttingDown (Interface (DelayingInterface d))"
  "\<lambda>d. queue (Interface (DelayingInterface d))" "\<lambda>d. processing (Interface (DelayingInterface d))"
  "\<lambda>d. q_again (Interface (DelayingInterface d))" rl_inv
  for cvt :: "float64 \<Rightarrow> int" and reserve :: "'b \<Rightarrow> duration \<times> 'b" and now :: time and pick :: bool
proof (intro executor_queue.intro executor_queue_axioms.intro)
  show "rate_limited_queue (jq_Add (repo_queue cvt reserve now pick)) (jq_Get (repo_queue cvt reserve now pick))
      (jq_Done (repo_queue cvt reserve now pick)) (jq_ShutDown (repo_queue cvt reserve now pick))
      (jq_Len (repo_queue cvt reserve now pick))
      (\<lambda>d. ShuttingDown (Interface (DelayingInterface d)))
      (\<lambda>d. queue (Interface (DelayingInterface d))) (\<lambda>d. processing (Interface (DelayingInterface d)))
      (\<lambda>d. q_again (Interface (DelayingInterface d))) rl_inv
      (jq_AddRateLimited (repo_queue cvt reserve now pick)) (jq_Forget (repo_queue cvt reserve now pick))
      (jq_NumRequeues (repo_queue cvt reserve now pick)) (jq_arrive (repo_queue cvt reserve now pick))"
    using rlc.rate_limited_queue_axioms by (simp add: repo_queue_def)
next
  fix q :: "('j, 'b) rateLimitingType" assume "rl_inv q"
  then have "finite (processing (Interface (DelayingInterface q)))" using rlq.promoted.wf by blast
  then show "jq_drained (repo_queue cvt reserve now pick) q \<longleftrightarrow>
      processing (Interface (DelayingInterface q)) = {}"
    by (simp add: repo_queue_def isProcessing_def set_len_def)
qed

text \<open>A queue as its constructor returns it.\<close>

definition fresh_queue :: "('j, 'q) jobQueue \<Rightarrow> ('q \<Rightarrow> 'j set) \<Rightarrow> ('q \<Rightarrow> bool) \<Rightarrow> 'q \<Rightarrow> bool" where
  "fresh_queue Q running invar q \<longleftrightarrow>
     invar q \<and> running q = {} \<and> (\<forall>j. jq_NumRequeues Q j q = 0)"

lemma executor_New_fields:
  assumes "executor_New mk c = Inr e"
  shows "runningJobs e = Map.empty" and "maxRetries e = MaxJobRetries c" and "workers e = Workers c"
    and "maxQueueSize e = QueueSize c"
    and "e_queue e = mk (BaseRetryDelay c) maxRetryDelay (wrap64 (Workers c * PerWorkerQPS c)) (QueueSize c)"
  using assms by (auto simp: executor_New_def split: if_splits)

text \<open>The invariant holds in every state reached by an executor made by \<open>New\<close>.\<close>

context executor_queue
begin

lemma reached_inv:
  assumes "\<And>a b l n. fresh_queue Q running invar (mk a b l n)" and "executor_New mk c = Inr e"
    and "RunJobs e = Some s0" and "exec_run Q jm n s0 s"
  shows "exec_inv jm s" and "maxRetries (xe s) = MaxJobRetries c"
    and "int (length (xw s)) = Workers c"
proof -
  have "exec_inv jm s0"
    using assms(1,2) executor_New_fields [OF assms(2)]
    by (intro exec_inv_start [OF assms(3)]) (simp_all add: fresh_queue_def)
  with assms(4) show "exec_inv jm s" by (rule exec_inv_run)
  show "maxRetries (xe s) = MaxJobRetries c" and "int (length (xw s)) = Workers c"
    using exec_run_frame [OF assms(4)] RunJobs_start [OF assms(3)] executor_New_fields [OF assms(2)] by auto
qed

lemma held_and_marks:
  assumes "\<And>a b l n. fresh_queue Q running invar (mk a b l n)" and "executor_New mk c = Inr e"
    and "RunJobs e = Some s0" and "exec_run Q jm n s0 s"
  shows "(i < length (xw s) \<and> k < length (xw s) \<and> held (xw s ! i) = Some j \<and>
      held (xw s ! k) = Some j \<longrightarrow> i = k) \<and>
    (runningJobs (xe s) x = Some v \<longrightarrow>
      (\<exists>w \<in> set (xw s). \<exists>j. marking w = Some j \<and> ID jm j = x))"
  using reached_inv(1) [OF assms] by (auto simp: exec_inv_def queue_ok_def held_once_def marks_ok_def)

lemma requeues_within:
  assumes "\<And>a b l n. fresh_queue Q running invar (mk a b l n)" and "executor_New mk c = Inr e"
    and "RunJobs e = Some s0" and "exec_run Q jm n s0 s"
  shows "int (jq_NumRequeues Q j (e_queue (xe s))) \<le> max 0 (MaxJobRetries c)"
proof -
  have "jq_NumRequeues Q j (e_queue (xe s)) \<le> nat (MaxJobRetries c)"
    using reached_inv(1,2) [OF assms] by (simp add: exec_inv_def queue_ok_def)
  then show ?thesis by linarith
qed

lemma workers_finish:
  assumes "\<And>a b l n. fresh_queue Q running invar (mk a b l n)" and "executor_New mk c = Inr e"
    and "RunJobs e = Some s0" and "exec_run Q jm n s0 s" and "cancelled s" and "exec_run Q jm m s s'"
  shows "int m \<le> 8 * Workers c \<and>
    (xmain s' = Draining \<longrightarrow>
      (\<forall>i < length (xw s'). xw s' ! i = Exited \<or>
        (\<exists>t. worker_step Q jm i err (Some Canceled) s' = Some t)) \<and>
      (set (xw s') \<subseteq> {Exited} \<longrightarrow> (\<exists>t. env_step Q jm s' t \<and> xmain t = Successful)))"
proof (intro conjI impI allI)
  note I = reached_inv [OF assms(1-4)]
  have inv: "exec_inv jm s'" using assms(6) I(1) by (rule exec_inv_run)
  show "int m \<le> 8 * Workers c"
    using exec_run_exit [OF assms(6,5)] to_exit_bound [of s] I(3) by linarith
  show "xw s' ! i = Exited \<or> (\<exists>t. worker_step Q jm i err (Some Canceled) s' = Some t)"
    if "xmain s' = Draining" "i < length (xw s')" for i
    using worker_enabled [OF inv _ that(2)] that(1) by auto
  show "\<exists>t. env_step Q jm s' t \<and> xmain t = Successful"
    if "xmain s' = Draining" "set (xw s') \<subseteq> {Exited}"
    using succeeds [OF that exited_drained [OF inv that(2)]]
    by (intro exI [of _ "s'\<lparr>xmain := Successful\<rparr>"]) simp
qed

lemma AddJob_effect:
  assumes "invar (e_queue e)" and "\<not> isNil jm j"
  shows "if int (jq_Len Q (e_queue e)) < maxQueueSize e
    then \<exists>e'. AddJob Q jm j e = (AddJobOk, e') \<and> int (jq_Len Q (e_queue e')) \<le> maxQueueSize e \<and>
      runningJobs e' = runningJobs e \<and>
      (stopping (e_queue e) \<or> j \<in> set (ready (e_queue e')) \<or> j \<in> again (e_queue e'))
    else AddJob Q jm j e = (AddJobErr (QueueFull (int (jq_Len Q (e_queue e))) (maxQueueSize e)), e)"
  using assms len_add [OF assms(1), of j] added_is_pending [OF assms(1), of j]
  by (auto simp: AddJob_def)

end

section \<open>Concrete runs\<close>

datatype 'j xaction = Work nat bool "ctx_err option" | CallAddJob 'j

fun x_act :: "('j, 'q) jobQueue \<Rightarrow> 'j Job \<Rightarrow> 'j xaction \<Rightarrow> ('j, 'q) exec_sys \<Rightarrow> ('j, 'q) exec_sys option" where
  "x_act Q jm (Work i err terr) s = worker_step Q jm i err terr s"
| "x_act Q jm (CallAddJob j) s = (case AddJob Q jm j (xe s) of (r, e) \<Rightarrow> Some (s\<lparr>xe := e\<rparr>))"

text \<open>The states after each action, the last one first.\<close>

fun x_trace ::
    "('j, 'q) jobQueue \<Rightarrow> 'j Job \<Rightarrow> 'j xaction list \<Rightarrow> ('j, 'q) exec_sys list \<Rightarrow> ('j, 'q) exec_sys list option" where
  "x_trace Q jm [] tr = Some tr"
| "x_trace Q jm (a # as) [] = None"
| "x_trace Q jm (a # as) (s # tr) =
     (case x_act Q jm a s of None \<Rightarrow> None | Some s' \<Rightarrow> x_trace Q jm as (s' # s # tr))"

lemma x_act_run: "x_act Q jm a s' = Some s'' \<Longrightarrow> exec_run Q jm n s s' \<Longrightarrow> \<exists>m. exec_run Q jm m s s''"
  by (cases a) (auto intro: exec_worker exec_around add_job split: prod.splits)

lemma x_trace_run:
  "x_trace Q jm as (s' # tr) = Some (s'' # tr') \<Longrightarrow> exec_run Q jm n s s' \<Longrightarrow> \<exists>m. exec_run Q jm m s s''"
proof (induction "as" arbitrary: s' tr n)
  case (Cons a "as")
  then obtain t where "x_act Q jm a s' = Some t" "x_trace Q jm as (t # s' # tr) = Some (s'' # tr')"
    by (auto split: option.splits)
  with Cons x_act_run show ?case by blast
qed auto

text \<open>Jobs are numbers; all have the same id, and none may run concurrently with another.\<close>

definition same_id :: "nat Job" where
  "same_id = \<lparr>isNil = \<lambda>j. False, ID = \<lambda>j. ''trigger'', AllowConcurrency = \<lambda>j. False\<rparr>"

definition demo_queue :: "(nat, (nat, unit) rateLimitingType) jobQueue" where
  "demo_queue = repo_queue (\<lambda>f. 0) (\<lambda>b. (0, b)) 0 True"

definition demo_mk :: "duration \<Rightarrow> duration \<Rightarrow> int \<Rightarrow> int \<Rightarrow> (nat, unit) rateLimitingType" where
  "demo_mk a b l n = NewRateLimitingQueue globalMetricsFactory \<lparr>data = 0, readyAt = 0, index = 0\<rparr>
     (NewItemFastSlowRateLimiter 0 0 5)"

definition demo_config :: executor_Config where
  "demo_config = \<lparr>QueueSize = 50, Workers = 2, MaxJobRetries = 2, BaseRetryDelay = second,
     RetryJobAfterFailure = False, PerWorkerQPS = 2, Timeout = 10 * second\<rparr>"

definition demo_exec :: "(nat, unit) rateLimitingType Executor" where
  "demo_exec = projr (executor_New demo_mk demo_config)"

definition demo_start :: "(nat, (nat, unit) rateLimitingType) exec_sys" where
  "demo_start = the (RunJobs demo_exec)"

lemma demo_exec: "executor_New demo_mk demo_config = Inr demo_exec"
  by (simp add: demo_exec_def executor_New_def demo_config_def second_def)

lemma demo_start: "RunJobs demo_exec = Some demo_start"
  by (simp add: demo_start_def demo_exec_def RunJobs_def executor_New_def demo_config_def second_def)

lemma demo_start_eq:
  "demo_start = \<lparr>xe = \<lparr>workers = 2, maxQueueSize = 50, maxRetries = 2, allowRetries = False,
       timeout = 10 * second, runningJobs = Map.empty, e_queue = demo_mk 0 0 0 0\<rparr>,
     xw = [AtTop, AtTop], cancelled = False, xmain = Serving\<rparr>"
  unfolding demo_start_def
  by (simp add: demo_exec_def RunJobs_def executor_New_def demo_config_def second_def demo_mk_def
      numeral_2_eq_2)

lemma demo_fresh:
  "fresh_queue demo_queue (\<lambda>d. processing (Interface (DelayingInterface d))) rl_inv (demo_mk a b l n)"
proof -
  have "d_inv (NewDelayingQueue globalMetricsFactory \<lparr>data = 0 :: nat, readyAt = 0, index = 0\<rparr>)"
    using d_inv_new by (simp add: NewDelayingQueue_def NewNamedDelayingQueue_def)
  then show ?thesis
    by (simp add: fresh_queue_def demo_queue_def repo_queue_def demo_mk_def rl_inv_def counts.simps
        NewRateLimitingQueue_def NewItemFastSlowRateLimiter_def queue_NumRequeues_def failures_of_def
        NewDelayingQueue_def NewDelayingQueueWithCustomClock_def newDelayingQueue_def op_defs)
qed

lemma demo_contract: "executor_queue demo_queue (\<lambda>d. ShuttingDown (Interface (DelayingInterface d)))
    (\<lambda>d. queue (Interface (DelayingInterface d))) (\<lambda>d. processing (Interface (DelayingInterface d)))
    (\<lambda>d. q_again (Interface (DelayingInterface d))) rl_inv"
  unfolding demo_queue_def by (rule rlx.executor_queue_axioms)

lemmas demo_eval = demo_queue_def repo_queue_def same_id_def demo_mk_def worker_step_def ctx_ok_def
  AddJob_def requeueJob_def getJobStatus_def setJobRunning_def setJobFinished_def setJobStatus_def
  NewItemFastSlowRateLimiter_def failures_of_def new_waiting_def pq_Len_def Let_def op_defs

text \<open>Both workers pick a job and look at the status before either marks its job as running.\<close>

definition race_run :: "nat xaction list" where
  "race_run =
     (let w0 = Work 0 False None; w1 = Work 1 False None
      in [CallAddJob 1, CallAddJob 2, w0, w1, w0, w1, w0, w1, w0, w1])"

text \<open>The second worker meets its job three times while the first one executes the other job.\<close>

definition drop_run :: "nat xaction list" where
  "drop_run =
     (let w0 = Work 0 False None; w1 = Work 1 False None
      in [CallAddJob 1, CallAddJob 2, w0, w0, w0, w0,
          w1, w1, w1, w1, w1, w1, w1, w1, w1, w1, w1, w1])"

section \<open>Properties\<close>

text \<open>
  C7. At most one worker holds a job at any time, whatever the interleaving, so one job is never run
  by two workers at once; and every entry of \<open>runningJobs\<close> belongs to a worker that executes a job
  with that id, so that no job is refused because of a stale entry.
\<close>

theorem job_held_once:
  assumes "executor_queue Q stopping ready running again invar"
    and "\<And>a b l n. fresh_queue Q running invar (mk a b l n)" and "executor_New mk c = Inr e"
    and "RunJobs e = Some s0" and "exec_run Q jm n s0 s"
  shows "(i < length (xw s) \<and> k < length (xw s) \<and> held (xw s ! i) = Some j \<and>
      held (xw s ! k) = Some j \<longrightarrow> i = k) \<and>
    (runningJobs (xe s) x = Some v \<longrightarrow>
      (\<exists>w \<in> set (xw s). \<exists>j. marking w = Some j \<and> ID jm j = x))"
  by (rule executor_queue.held_and_marks [OF assms])

lemma race_run_result:
  "\<exists>s tr. x_trace demo_queue same_id race_run [demo_start] = Some (s # tr) \<and> xw s = [InRun 1, InRun 2]"
  by (simp add: race_run_def demo_start_eq demo_eval)

lemma race_reached: "\<exists>n s. exec_run demo_queue same_id n demo_start s \<and> xw s = [InRun 1, InRun 2]"
  using race_run_result x_trace_run [OF _ exec_refl] by blast

theorem job_held_once_witness:
  "\<exists>n s. exec_run demo_queue same_id n demo_start s \<and> xw s = [InRun 1, InRun 2] \<and>
    held (xw s ! 0) = Some 1 \<and> held (xw s ! 1) \<noteq> Some 1"
proof -
  obtain n s where s: "exec_run demo_queue same_id n demo_start s" "xw s = [InRun 1, InRun 2]"
    using race_reached by blast
  from job_held_once [OF demo_contract demo_fresh demo_exec demo_start s(1), of 0 1 1] s(2)
  have "held (xw s ! 1) \<noteq> Some 1" by auto
  then show ?thesis using s by (intro exI [of _ n] exI [of _ s]) simp
qed

text \<open>
  C34. The status check does not exclude two jobs with the same id: the check and the mark are
  separate steps, so two workers can both find no mark and execute jobs with the same id, which do
  not allow concurrency, at the same time.
\<close>

theorem same_id_jobs_race:
  "\<exists>n s. exec_run demo_queue same_id n demo_start s \<and> xw s = [InRun 1, InRun 2] \<and>
    ID same_id 1 = ID same_id 2 \<and> \<not> AllowConcurrency same_id 1 \<and> \<not> AllowConcurrency same_id 2"
  using race_reached by (simp add: same_id_def)




text \<open>
  C15. The executor stops. Once the context is cancelled, its workers take at most eight more steps
  each; when the queue is shut down every worker that has not returned can take a step (as soon as
  its job's \<open>Run\<close> returns), and when all have returned the shutdown succeeds.
\<close>

theorem workers_stop:
  assumes "executor_queue Q stopping ready running again invar"
    and "\<And>a b l n. fresh_queue Q running invar (mk a b l n)" and "executor_New mk c = Inr e"
    and "RunJobs e = Some s0" and "exec_run Q jm n s0 s" and "cancelled s" and "exec_run Q jm m s s'"
  shows "int m \<le> 8 * Workers c \<and>
    (xmain s' = Draining \<longrightarrow>
      (\<forall>i < length (xw s'). xw s' ! i = Exited \<or>
        (\<exists>t. worker_step Q jm i err (Some Canceled) s' = Some t)) \<and>
      (set (xw s') \<subseteq> {Exited} \<longrightarrow> (\<exists>t. env_step Q jm s' t \<and> xmain t = Successful)))"
  by (rule executor_queue.workers_finish [OF assms])

definition stopping_run :: "(nat, (nat, unit) rateLimitingType) exec_sys" where
  "stopping_run = demo_start\<lparr>cancelled := True, xmain := Draining,
     xe := (xe demo_start)\<lparr>e_queue := rl_ShutDown (e_queue (xe demo_start))\<rparr>\<rparr>"

lemma stopping_run_reached:
  "exec_run demo_queue same_id 0 demo_start (demo_start\<lparr>cancelled := True\<rparr>)"
  "exec_run demo_queue same_id 0 (demo_start\<lparr>cancelled := True\<rparr>) stopping_run"
proof -
  show "exec_run demo_queue same_id 0 demo_start (demo_start\<lparr>cancelled := True\<rparr>)"
    by (intro exec_around [OF exec_refl] cancels)
  have "env_step demo_queue same_id (demo_start\<lparr>cancelled := True\<rparr>) stopping_run"
    using shuts_down [of "demo_start\<lparr>cancelled := True\<rparr>" demo_queue same_id]
    by (simp add: stopping_run_def demo_start_eq demo_queue_def repo_queue_def)
  then show "exec_run demo_queue same_id 0 (demo_start\<lparr>cancelled := True\<rparr>) stopping_run"
    by (rule exec_around [OF exec_refl])
qed

theorem workers_stop_witness:
  "xmain stopping_run = Draining \<and> (\<exists>t. worker_step demo_queue same_id 0 True (Some Canceled) stopping_run = Some t)"
proof -
  have "xmain stopping_run = Draining" "xw stopping_run = [AtTop, AtTop]"
    by (simp_all add: stopping_run_def demo_start_eq)
  with workers_stop [OF demo_contract demo_fresh demo_exec demo_start stopping_run_reached(1) _
      stopping_run_reached(2), of True]
  show ?thesis by (auto dest: spec [of _ 0])
qed

end
