(* ===== verification/Go_Strings.thy ===== *)
theory Go_Strings
  imports Prelude "HOL-Library.Char_ord" "HOL-Library.List_Lexorder"
begin

text \<open>
  What the sources use of Go's packages \<open>strings\<close>, \<open>strconv\<close>, \<open>path/filepath\<close> and \<open>encoding/json\<close>.
  Strings are lists of bytes.
\<close>

section \<open>strings\<close>

fun has_prefix :: "string \<Rightarrow> string \<Rightarrow> bool" where
  "has_prefix [] s = True"
| "has_prefix (c # cs) [] = False"
| "has_prefix (c # cs) (d # ds) = (c = d \<and> has_prefix cs ds)"

fun contains :: "string \<Rightarrow> string \<Rightarrow> bool" where
  "contains [] sub = (sub = [])"
| "contains (c # cs) sub = (has_prefix sub (c # cs) \<or> contains cs sub)"

fun join :: "string list \<Rightarrow> string \<Rightarrow> string" where
  "join [] sep = []"
| "join [x] sep = x"
| "join (x # y # ys) sep = x @ sep @ join (y # ys) sep"

text \<open>White space of the ASCII range; the formatter whose output is trimmed emits no other.\<close>

definition is_space :: "char \<Rightarrow> bool" where
  "is_space c \<longleftrightarrow> c \<in> set [CHR 0x09, CHR 0x0A, CHR 0x0B, CHR 0x0C, CHR 0x0D, CHR 0x20]"

definition trim_space :: "string \<Rightarrow> string" where
  "trim_space s = rev (dropWhile is_space (rev (dropWhile is_space s)))"

section \<open>strconv.FormatUint in base 16\<close>

definition hex_digit :: "nat \<Rightarrow> char" where
  "hex_digit d = ''0123456789abcdef'' ! d"

fun hex_digits :: "nat \<Rightarrow> string" where
  "hex_digits n = (if n < 16 then [hex_digit n] else hex_digits (n div 16) @ [hex_digit (n mod 16)])"

declare hex_digits.simps [simp del]

definition digit_value :: "char \<Rightarrow> nat" where
  "digit_value c = (if of_char c < (58::nat) then of_char c - 48 else of_char c - 87)"

definition hex_value :: "string \<Rightarrow> nat" where
  "hex_value s = foldl (\<lambda>n c. 16 * n + digit_value c) 0 s"

lemma digit_value_hex_digit: "d < 16 \<Longrightarrow> digit_value (hex_digit d) = d"
proof -
  have "\<forall>d \<in> set [0..<16]. digit_value (hex_digit d) = d" by code_simp
  then show "d < 16 \<Longrightarrow> digit_value (hex_digit d) = d" by simp
qed

lemma hex_round_trip: "hex_value (hex_digits n) = n"
proof (induction n rule: hex_digits.induct)
  case (1 n)
  show ?case
  proof (cases "n < 16")
    case True
    then show ?thesis by (subst hex_digits.simps) (simp add: hex_value_def digit_value_hex_digit)
  next
    case False
    with 1 have "hex_value (hex_digits (n div 16)) = n div 16" by simp
    with False show ?thesis
      by (subst hex_digits.simps) (simp add: hex_value_def digit_value_hex_digit)
  qed
qed

section \<open>path/filepath\<close>

text \<open>\<open>Ext\<close>: the suffix from the last dot of the last element of the path.\<close>

definition file_ext :: "string \<Rightarrow> string" where
  "file_ext path =
     (let r = takeWhile (\<lambda>c. c \<noteq> CHR ''/'') (rev path);
          e = takeWhile (\<lambda>c. c \<noteq> CHR ''.'') r
      in if e = r then '''' else CHR ''.'' # rev e)"

text \<open>
  \<open>Clean\<close>: the elements of a path without the empty ones and \<open>.\<close>, and with \<open>..\<close> resolved as far as
  possible; \<open>out\<close> has the elements kept so far, the last one first.
\<close>

fun split_slash :: "string \<Rightarrow> string list" where
  "split_slash [] = [[]]"
| "split_slash (c # cs) = (if c = CHR ''/'' then [] # split_slash cs
     else (c # hd (split_slash cs)) # tl (split_slash cs))"

definition clean_elem :: "bool \<Rightarrow> string \<Rightarrow> string list \<Rightarrow> string list" where
  "clean_elem rooted x out =
     (if x = '''' \<or> x = ''.'' then out
      else if x = ''..'' then
        (if out \<noteq> [] \<and> hd out \<noteq> ''..'' then tl out else if rooted then out else x # out)
      else x # out)"

definition path_Clean :: "string \<Rightarrow> string" where
  "path_Clean path =
     (let rooted = (path \<noteq> [] \<and> hd path = CHR ''/'');
          s = (if rooted then ''/'' else '''') @ join (rev (fold (clean_elem rooted) (split_slash path) [])) ''/''
      in if s = '''' then ''.'' else s)"

definition path_join :: "string \<Rightarrow> string \<Rightarrow> string" where
  "path_join dir name =
     (if dir = '''' \<and> name = '''' then ''''
      else if dir = '''' then path_Clean name
      else if name = '''' then path_Clean dir
      else path_Clean (dir @ ''/'' @ name))"

lemma split_slash_append:
  assumes "CHR ''/'' \<notin> set t"
  shows "\<exists>xs x. split_slash (s @ t) = xs @ [x @ t]"
proof (induction s)
  case Nil
  have "split_slash t = [t]" using assms by (induction t) auto
  then have "split_slash ([] @ t) = [] @ [[] @ t]" by simp
  then show ?case by blast
next
  case (Cons c s)
  then obtain xs x where IH: "split_slash (s @ t) = xs @ [x @ t]" by blast
  show ?case
  proof (cases "c = CHR ''/'' \<or> xs \<noteq> []")
    case True
    then have "split_slash ((c # s) @ t) = (if c = CHR ''/'' then [] # xs else (c # hd xs) # tl xs) @ [x @ t]"
      using IH by (cases xs) auto
    then show ?thesis by blast
  next
    case False
    then have "split_slash ((c # s) @ t) = [] @ [(c # x) @ t]" using IH by simp
    then show ?thesis by blast
  qed
qed

lemma join_snoc: "\<exists>p. join (xs @ [x]) sep = p @ x"
proof (induction xs sep rule: join.induct)
  case (3 y z zs sep)
  then show ?case by (metis append_Cons append_assoc join.simps(3))
qed auto

text \<open>The end of the last element is the end of the cleaned path.\<close>

lemma path_join_suffix:
  assumes "CHR ''/'' \<notin> set t" and "2 < length t"
  shows "\<exists>p. path_join dir (name @ t) = p @ t"
proof -
  have "\<exists>p. path_Clean (s @ t) = p @ t" for s
  proof -
    obtain xs x where sp: "split_slash (s @ t) = xs @ [x @ t]" using split_slash_append [OF assms(1)] by blast
    have "x @ t \<notin> {'''', ''.'', ''..''}" using assms(2) by (auto dest!: arg_cong [of _ _ length])
    then have "clean_elem r (x @ t) out = (x @ t) # out" for r out by (simp add: clean_elem_def)
    then obtain out where "fold (clean_elem (s @ t \<noteq> [] \<and> hd (s @ t) = CHR ''/'')) (split_slash (s @ t)) [] = (x @ t) # out"
      unfolding sp fold_append by simp
    moreover obtain p where "join (rev out @ [x @ t]) ''/'' = p @ x @ t" using join_snoc by blast
    ultimately show ?thesis using assms(2) unfolding path_Clean_def Let_def by auto
  qed
  from this [of name] this [of "dir @ ''/'' @ name"] show ?thesis
    using assms(2) by (auto simp: path_join_def)
qed

section \<open>encoding/json\<close>

text \<open>
  A string as \<open>json.Marshal\<close> writes it. Bytes outside the ASCII range are copied, which is what the
  encoder does on valid UTF-8 other than U+2028 and U+2029.
\<close>

definition json_char :: "char \<Rightarrow> string" where
  "json_char c =
     (let n = of_char c :: nat
      in if c = CHR 0x22 then [CHR 0x5C, CHR 0x22]
         else if c = CHR 0x5C then [CHR 0x5C, CHR 0x5C]
         else if n = 8 then CHR 0x5C # ''b''
         else if n = 12 then CHR 0x5C # ''f''
         else if n = 10 then CHR 0x5C # ''n''
         else if n = 13 then CHR 0x5C # ''r''
         else if n = 9 then CHR 0x5C # ''t''
         else if n < 32 \<or> c = CHR ''<'' \<or> c = CHR ''>'' \<or> c = CHR ''&''
         then CHR 0x5C # ''u00'' @ [hex_digit (n div 16), hex_digit (n mod 16)]
         else [c])"

definition json_string :: "string \<Rightarrow> string" where
  "json_string s = CHR 0x22 # concat (map json_char s) @ [CHR 0x22]"

text \<open>A map with string values: the members sorted by key.\<close>

definition json_object :: "(string \<times> string) list \<Rightarrow> string" where
  "json_object m =
     ''{'' @ join (map (\<lambda>(k, v). json_string k @ '':'' @ json_string v) (sort_key fst m)) '','' @ ''}''"

end
