(* ===== verification/Go_Json.thy ===== *)
theory Go_Json
  imports Go_Strings "HOL-Library.AList"
begin

text \<open>
  JSON values and the part of \<open>json.Unmarshal\<close> that fills the fields of a struct. A
  \<open>runtime.RawExtension\<close> keeps the text of a JSON value that a decoder has accepted before; it is
  modelled by the value itself, and a pointer to one by an option.
\<close>

datatype json =
    JNull
  | JBool bool
  | JNum string
  | JStr string
  | JArr "json list"
  | JObj "(string \<times> json) list"

text \<open>\<open>MarshalJSON\<close> has a value receiver: calling it through a nil pointer panics.\<close>

fun MarshalJSON :: "json option \<Rightarrow> json result" where
  "MarshalJSON None = Panic"
| "MarshalJSON (Some v) = Ok v"

text \<open>Members are matched with the fields by name, without regard to case.\<close>

definition lower :: "char \<Rightarrow> char" where
  "lower c = (let n = of_char c :: nat in if 65 \<le> n \<and> n \<le> 90 then char_of (n + 32) else c)"

definition is_field :: "string \<Rightarrow> string \<Rightarrow> bool" where
  "is_field name key \<longleftrightarrow> map lower name = map lower key"

text \<open>
  Decoding into a string, a list of strings and a map. \<open>null\<close> leaves a string as it is and makes a
  list or a map nil; a nil map is \<open>None\<close>, a map is an association list.
\<close>

fun decode_string :: "json \<Rightarrow> string \<Rightarrow> string result" where
  "decode_string (JStr s) old = Ok s"
| "decode_string JNull old = Ok old"
| "decode_string _ old = Err ''json: cannot unmarshal value into Go value of type string''"

fun decode_elems :: "json list \<Rightarrow> string list result" where
  "decode_elems [] = Ok []"
| "decode_elems (v # vs) =
     (case decode_string v '''' of
        Ok s \<Rightarrow> (case decode_elems vs of Ok ss \<Rightarrow> Ok (s # ss) | Err e \<Rightarrow> Err e | Panic \<Rightarrow> Panic)
      | Err e \<Rightarrow> Err e | Panic \<Rightarrow> Panic)"

fun decode_strings :: "json \<Rightarrow> string list result" where
  "decode_strings (JArr vs) = decode_elems vs"
| "decode_strings JNull = Ok []"
| "decode_strings _ = Err ''json: cannot unmarshal value into Go value of type []string''"

fun decode_entries :: "(string \<times> json) list \<Rightarrow> (string \<times> string) list \<Rightarrow> (string \<times> string) list result" where
  "decode_entries [] m = Ok m"
| "decode_entries ((k, v) # ms) m =
     (case decode_string v '''' of
        Ok s \<Rightarrow> decode_entries ms (AList.update k s m)
      | Err e \<Rightarrow> Err e | Panic \<Rightarrow> Panic)"

fun decode_map :: "json \<Rightarrow> (string \<times> string) list option \<Rightarrow> (string \<times> string) list option result" where
  "decode_map (JObj ms) m =
     (case decode_entries ms (case m of None \<Rightarrow> [] | Some m \<Rightarrow> m) of
        Ok m' \<Rightarrow> Ok (Some m') | Err e \<Rightarrow> Err e | Panic \<Rightarrow> Panic)"
| "decode_map JNull m = Ok None"
| "decode_map _ m = Err ''json: cannot unmarshal value into Go value of type map[string]string''"

text \<open>A struct is filled member by member; \<open>step\<close> assigns one member.\<close>

fun decode_members :: "(string \<Rightarrow> json \<Rightarrow> 's \<Rightarrow> 's result) \<Rightarrow> (string \<times> json) list \<Rightarrow> 's \<Rightarrow> 's result" where
  "decode_members step [] s = Ok s"
| "decode_members step ((k, v) # ms) s =
     (case step k v s of Ok s' \<Rightarrow> decode_members step ms s' | Err e \<Rightarrow> Err e | Panic \<Rightarrow> Panic)"

fun decode_struct :: "(string \<Rightarrow> json \<Rightarrow> 's \<Rightarrow> 's result) \<Rightarrow> json \<Rightarrow> 's \<Rightarrow> 's result" where
  "decode_struct step (JObj ms) s = decode_members step ms s"
| "decode_struct step JNull s = Ok s"
| "decode_struct step _ s = Err ''json: cannot unmarshal value into Go struct''"

end
