(* ===== verification/Api_Types.thy ===== *)
theory Api_Types
  imports Go_Json
begin

text \<open>
  The user-facing types of \<open>api/v1alpha1/triggerservice_types.go\<close>, and the types that
  \<open>pkg/eventhandler\<close> gives to the functions that sources call.
\<close>

record ActionMeta =
  am_Type :: string
  am_Properties :: "json option"

record Source =
  src_Type :: string
  src_Properties :: "json option"

record TriggerMeta =
  tm_Source :: Source
  tm_Filter :: string
  tm_Action :: ActionMeta

record Worker =
  wk_Template :: string
  wk_Properties :: "json option"

text \<open>A pointer is an option; the list of triggers may be nil.\<close>

record TriggerServiceSpec =
  sp_Worker :: "Worker option"
  sp_Triggers :: "TriggerMeta list option"

definition SourceTypeResourceWatcher :: string where
  "SourceTypeResourceWatcher = ''resource-watcher''"

text \<open>
  An \<open>EventHandler\<close> acts on the state \<open>'w\<close> of the world around it and returns nil or an error.
\<close>

type_synonym ('e, 'd, 'w) EventHandler = "string \<Rightarrow> 'e \<Rightarrow> 'd \<Rightarrow> 'w \<Rightarrow> string option \<times> 'w"

end
