(* ===== verification/Watcher_Types.thy ===== *)
theory Watcher_Types
  imports Api_Types
begin

text \<open>
  The configuration and the events of the resource watcher
  (\<open>pkg/source/builtin/k8sresourcewatcher/types/types.go\<close>, \<open>utils/utils.go\<close>). A Go map with string
  keys is an association list, and a nil map is \<open>None\<close>: it can be read, but writing to it panics.
\<close>

section \<open>Configuration\<close>

record watcher_Config =
  APIVersion :: string
  Kind :: string
  Namespace :: string
  Events :: "string list"
  MatchingLabels :: "(string \<times> string) list option"
  Clusters :: "string list"

definition zero_Config :: watcher_Config where
  "zero_Config = \<lparr>APIVersion = '''', Kind = '''', Namespace = '''', Events = [], MatchingLabels = None, Clusters = []\<rparr>"

text \<open>What \<open>json.Unmarshal\<close> does with one member of the object.\<close>

definition Config_member :: "string \<Rightarrow> json \<Rightarrow> watcher_Config \<Rightarrow> watcher_Config result" where
  "Config_member k v c =
     (if is_field ''apiVersion'' k then
        (case decode_string v (APIVersion c) of Ok s \<Rightarrow> Ok (c\<lparr>APIVersion := s\<rparr>) | Err e \<Rightarrow> Err e | Panic \<Rightarrow> Panic)
      else if is_field ''kind'' k then
        (case decode_string v (Kind c) of Ok s \<Rightarrow> Ok (c\<lparr>Kind := s\<rparr>) | Err e \<Rightarrow> Err e | Panic \<Rightarrow> Panic)
      else if is_field ''namespace'' k then
        (case decode_string v (Namespace c) of Ok s \<Rightarrow> Ok (c\<lparr>Namespace := s\<rparr>) | Err e \<Rightarrow> Err e | Panic \<Rightarrow> Panic)
      else if is_field ''events'' k then
        (case decode_strings v of Ok s \<Rightarrow> Ok (c\<lparr>Events := s\<rparr>) | Err e \<Rightarrow> Err e | Panic \<Rightarrow> Panic)
      else if is_field ''matchingLabels'' k then
        (case decode_map v (MatchingLabels c) of Ok m \<Rightarrow> Ok (c\<lparr>MatchingLabels := m\<rparr>) | Err e \<Rightarrow> Err e | Panic \<Rightarrow> Panic)
      else if is_field ''clusters'' k then
        (case decode_strings v of Ok s \<Rightarrow> Ok (c\<lparr>Clusters := s\<rparr>) | Err e \<Rightarrow> Err e | Panic \<Rightarrow> Panic)
      else Ok c)"

definition map_entries :: "(string \<times> string) list option \<Rightarrow> (string \<times> string) list" where
  "map_entries m = (case m of None \<Rightarrow> [] | Some kvs \<Rightarrow> kvs)"

definition Config_Key :: "watcher_Config \<Rightarrow> string" where
  "Config_Key c =
     (let labels = (if length (map_entries (MatchingLabels c)) > 0
                    then json_object (map_entries (MatchingLabels c)) else '''')
      in join [APIVersion c, Kind c, Namespace c, labels] ''-'')"

text \<open>The two loops of \<open>Merge\<close>.\<close>

fun merge_events :: "string list \<Rightarrow> string list \<Rightarrow> string list" where
  "merge_events events [] = events"
| "merge_events events (e # es) = merge_events (if e \<in> set events then events else events @ [e]) es"

fun merge_labels ::
    "(string \<times> string) list option \<Rightarrow> (string \<times> string) list \<Rightarrow> (string \<times> string) list option result" where
  "merge_labels m [] = Ok m"
| "merge_labels m ((k, v) # kvs) =
     (if map_of (map_entries m) k = None
      then (case m of None \<Rightarrow> Panic | Some m' \<Rightarrow> merge_labels (Some (AList.update k v m')) kvs)
      else merge_labels m kvs)"

definition Config_Merge :: "watcher_Config \<Rightarrow> watcher_Config \<Rightarrow> watcher_Config result" where
  "Config_Merge c new =
     (case merge_labels (MatchingLabels c) (map_entries (MatchingLabels new)) of
        Ok m \<Rightarrow> Ok (c\<lparr>Events := merge_events (Events c) (Events new), MatchingLabels := m\<rparr>)
      | Err e \<Rightarrow> Err e
      | Panic \<Rightarrow> Panic)"

lemma set_merge_events [simp]: "set (merge_events xs ys) = set xs \<union> set ys"
  by (induction xs ys rule: merge_events.induct) auto

text \<open>The key tells whether there are labels.\<close>

lemma Config_Key_last:
  "last (Config_Key c) = (if map_entries (MatchingLabels c) = [] then CHR ''-'' else CHR ''}'')"
  by (simp add: Config_Key_def json_object_def)

lemma merge_labels_Some: "\<exists>m'. merge_labels (Some m) kvs = Ok (Some m')"
  by (induction kvs arbitrary: m) auto

section \<open>Events\<close>

definition EventTypeCreate :: string where "EventTypeCreate = ''create''"
definition EventTypeUpdate :: string where "EventTypeUpdate = ''update''"
definition EventTypeDelete :: string where "EventTypeDelete = ''delete''"

record Event =
  ev_Type :: string
  ev_Cluster :: string

text \<open>
  What an informer hands to its handlers: an object of the API, or, for a deletion that it missed,
  a \<open>cache.DeletedFinalStateUnknown\<close> with the key and the last known state of the object.
\<close>

datatype 'o informer_obj = APIObject 'o | DeletedFinalStateUnknown string 'o

record 'o InformerEvent =
  ie_Event :: Event
  EventObj :: "'o informer_obj"

text \<open>The type assertion of \<open>GetObjectMetaData\<close>; the tombstone is no \<open>metav1.Object\<close>.\<close>

fun GetObjectMetaData :: "'o informer_obj \<Rightarrow> 'o result" where
  "GetObjectMetaData (APIObject o') = Ok o'"
| "GetObjectMetaData (DeletedFinalStateUnknown k o') = Panic"

end
