(* ===== verification/Go_Json_Text.thy ===== *)
theory Go_Json_Text
  imports Go_Json
begin

text \<open>
  The text of a JSON value, as \<open>json.Marshal\<close> writes it and \<open>json.Unmarshal\<close> reads it. The reader is
  the composition of a scanner of tokens and a parser with an explicit stack, both structural
  recursions on their input. A text is a list of bytes; bytes outside the ASCII range are copied in
  both directions, which is what Go does on valid UTF-8. Numbers are kept as their literals.
\<close>

section \<open>Writing\<close>

fun render :: "json \<Rightarrow> string" where
  "render JNull = ''null''"
| "render (JBool b) = (if b then ''true'' else ''false'')"
| "render (JNum n) = n"
| "render (JStr s) = json_string s"
| "render (JArr vs) = ''['' @ join (map render vs) '','' @ '']''"
| "render (JObj ms) = ''{'' @ join (map (\<lambda>(k, v). json_string k @ '':'' @ render v) ms) '','' @ ''}''"

section \<open>Strings\<close>

abbreviation backslash :: char where "backslash \<equiv> CHR 0x5C"
abbreviation quote :: char where "quote \<equiv> CHR 0x22"

text \<open>The UTF-8 encoding of a code point.\<close>

definition utf8 :: "nat \<Rightarrow> string" where
  "utf8 r =
     map char_of
       (if r < 0x80 then [r]
        else if r < 0x800 then [0xC0 + r div 0x40, 0x80 + r mod 0x40]
        else if r < 0x10000 then [0xE0 + r div 0x1000, 0x80 + r div 0x40 mod 0x40, 0x80 + r mod 0x40]
        else [0xF0 + r div 0x40000, 0x80 + r div 0x1000 mod 0x40, 0x80 + r div 0x40 mod 0x40, 0x80 + r mod 0x40])"

definition hex_val :: "char \<Rightarrow> nat option" where
  "hex_val c =
     (let n = of_char c :: nat
      in if 48 \<le> n \<and> n \<le> 57 then Some (n - 48)
         else if 97 \<le> n \<and> n \<le> 102 then Some (n - 87)
         else if 65 \<le> n \<and> n \<le> 70 then Some (n - 55)
         else None)"

text \<open>The four digits of an escape \<open>\u\<close>, with the text after them.\<close>

fun get_u4 :: "string \<Rightarrow> (nat \<times> string) option" where
  "get_u4 (a # b # c # d # s) =
     (case (hex_val a, hex_val b, hex_val c, hex_val d) of
        (Some w, Some x, Some y, Some z) \<Rightarrow> Some (((w * 16 + x) * 16 + y) * 16 + z, s)
      | _ \<Rightarrow> None)"
| "get_u4 _ = None"

text \<open>
  A code unit and the text after it: a high surrogate takes the low one that follows it, any other
  surrogate is replaced by U+FFFD.
\<close>

definition get_rune :: "nat \<Rightarrow> string \<Rightarrow> nat \<times> string" where
  "get_rune r s =
     (if r < 0xD800 \<or> 0xE000 \<le> r then (r, s)
      else case s of
             b # u # s' \<Rightarrow>
               (if b = backslash \<and> u = CHR ''u'' \<and> r < 0xDC00
                then (case get_u4 s' of
                        Some (r', s'') \<Rightarrow>
                          if 0xDC00 \<le> r' \<and> r' < 0xE000
                          then ((r - 0xD800) * 0x400 + (r' - 0xDC00) + 0x10000, s'') else (0xFFFD, s)
                      | None \<Rightarrow> (0xFFFD, s))
                else (0xFFFD, s))
           | _ \<Rightarrow> (0xFFFD, s))"

definition simple_escape :: "char \<Rightarrow> char option" where
  "simple_escape c =
     map_of [(quote, quote), (backslash, backslash), (CHR ''/'', CHR ''/''), (CHR ''b'', char_of (8::nat)),
       (CHR ''f'', char_of (12::nat)), (CHR ''n'', char_of (10::nat)), (CHR ''r'', char_of (13::nat)),
       (CHR ''t'', char_of (9::nat))] c"

lemma get_u4_length: "get_u4 s = Some (r, s') \<Longrightarrow> length s' < length s"
  by (cases s rule: get_u4.cases) (auto split: option.splits)

lemma get_rune_length: "length (snd (get_rune r s)) \<le> length s"
  by (auto simp: get_rune_def split: list.splits option.splits dest: get_u4_length)

function unquote :: "string \<Rightarrow> string option" where
  "unquote s =
     (case s of
        [] \<Rightarrow> Some []
      | c # cs \<Rightarrow>
          if c \<noteq> backslash then (if of_char c < (32::nat) \<or> c = quote then None else map_option (Cons c) (unquote cs))
          else case cs of
                 [] \<Rightarrow> None
               | e # es \<Rightarrow>
                   if e = CHR ''u'' then
                     (case get_u4 es of
                        None \<Rightarrow> None
                      | Some (r, s1) \<Rightarrow>
                          map_option ((@) (utf8 (fst (get_rune r s1)))) (unquote (snd (get_rune r s1))))
                   else (case simple_escape e of None \<Rightarrow> None | Some x \<Rightarrow> map_option (Cons x) (unquote es)))"
  by auto
termination
proof (relation "measure length")
  fix s c cs e es p r s1
  assume "s = c # cs" "cs = e # es" "get_u4 es = Some p" "(r, s1) = p"
  then show "(snd (get_rune r s1), s) \<in> measure length"
    using get_u4_length [of es r s1] get_rune_length [of r s1] by auto
qed auto

declare unquote.simps [simp del]

section \<open>Scanner\<close>

datatype tok = TLit json | TOpenArr | TCloseArr | TOpenObj | TCloseObj | TComma | TColon

text \<open>A number: an optional sign, digits without a leading zero, a fraction, an exponent.\<close>

definition is_digit :: "char \<Rightarrow> bool" where
  "is_digit c \<longleftrightarrow> 48 \<le> (of_char c :: nat) \<and> (of_char c :: nat) \<le> 57"

definition valid_exponent :: "string \<Rightarrow> bool" where
  "valid_exponent s =
     (case s of
        [] \<Rightarrow> True
      | e # ds \<Rightarrow> (e = CHR ''e'' \<or> e = CHR ''E'') \<and>
          (let ds' = (case ds of c # cs \<Rightarrow> if c = CHR ''+'' \<or> c = CHR ''-'' then cs else ds | [] \<Rightarrow> ds)
           in ds' \<noteq> [] \<and> list_all is_digit ds'))"

definition valid_fraction :: "string \<Rightarrow> bool" where
  "valid_fraction s =
     (case s of
        c # cs \<Rightarrow>
          if c = CHR ''.'' then takeWhile is_digit cs \<noteq> [] \<and> valid_exponent (dropWhile is_digit cs)
          else valid_exponent s
      | [] \<Rightarrow> True)"

definition valid_unsigned :: "string \<Rightarrow> bool" where
  "valid_unsigned s \<longleftrightarrow>
     (let ds = takeWhile is_digit s
      in ds \<noteq> [] \<and> (hd ds = CHR ''0'' \<longrightarrow> length ds = 1) \<and> valid_fraction (dropWhile is_digit s))"

definition valid_number :: "string \<Rightarrow> bool" where
  "valid_number s =
     (case s of c # cs \<Rightarrow> if c = CHR ''-'' then valid_unsigned cs else valid_unsigned s | [] \<Rightarrow> False)"

definition is_number_char :: "char \<Rightarrow> bool" where
  "is_number_char c \<longleftrightarrow> is_digit c \<or> c \<in> set ''+-.eE''"

definition word_value :: "string \<Rightarrow> json option" where
  "word_value s = map_of [(''null'', JNull), (''true'', JBool True), (''false'', JBool False)] s"

definition punctuation :: "char \<Rightarrow> tok option" where
  "punctuation c = map_of [(CHR ''['', TOpenArr), (CHR '']'', TCloseArr), (CHR ''{'', TOpenObj),
     (CHR ''}'', TCloseObj), (CHR '','', TComma), (CHR '':'', TColon)] c"

text \<open>Between tokens, in a string (after a backslash or not), in a number, in a word.\<close>

datatype scan_state = Between_Toks | InStr string | InEsc string | InNum string | InWord string

definition is_json_space :: "char \<Rightarrow> bool" where
  "is_json_space c \<longleftrightarrow> c \<in> set [CHR 0x20, CHR 0x09, CHR 0x0A, CHR 0x0D]"

definition is_letter :: "char \<Rightarrow> bool" where
  "is_letter c \<longleftrightarrow> 97 \<le> (of_char c :: nat) \<and> (of_char c :: nat) \<le> 122"

definition scan_begin :: "char \<Rightarrow> (tok list \<times> scan_state) option" where
  "scan_begin c =
     (if is_json_space c then Some ([], Between_Toks)
      else case punctuation c of
             Some t \<Rightarrow> Some ([t], Between_Toks)
           | None \<Rightarrow>
               if c = quote then Some ([], InStr [])
               else if is_digit c \<or> c = CHR ''-'' then Some ([], InNum [c])
               else if is_letter c then Some ([], InWord [c])
               else None)"

text \<open>The token that ends here.\<close>

fun scan_end :: "scan_state \<Rightarrow> tok list option" where
  "scan_end Between_Toks = Some []"
| "scan_end (InStr acc) = None"
| "scan_end (InEsc acc) = None"
| "scan_end (InNum acc) = (if valid_number (rev acc) then Some [TLit (JNum (rev acc))] else None)"
| "scan_end (InWord acc) = map_option (\<lambda>v. [TLit v]) (word_value (rev acc))"

fun scan_char :: "scan_state \<Rightarrow> char \<Rightarrow> (tok list \<times> scan_state) option" where
  "scan_char Between_Toks c = scan_begin c"
| "scan_char (InStr acc) c =
     (if c = quote then map_option (\<lambda>s. ([TLit (JStr s)], Between_Toks)) (unquote (rev acc))
      else if c = backslash then Some ([], InEsc acc)
      else Some ([], InStr (c # acc)))"
| "scan_char (InEsc acc) c = Some ([], InStr (c # backslash # acc))"
| "scan_char (InNum acc) c =
     (if is_number_char c then Some ([], InNum (c # acc))
      else case (scan_end (InNum acc), scan_begin c) of
             (Some ts, Some (ts', st)) \<Rightarrow> Some (ts @ ts', st)
           | _ \<Rightarrow> None)"
| "scan_char (InWord acc) c =
     (if is_letter c then Some ([], InWord (c # acc))
      else case (scan_end (InWord acc), scan_begin c) of
             (Some ts, Some (ts', st)) \<Rightarrow> Some (ts @ ts', st)
           | _ \<Rightarrow> None)"

definition emit :: "tok list \<Rightarrow> tok list option \<Rightarrow> tok list option" where
  "emit ts r = map_option ((@) ts) r"

fun scan :: "scan_state \<Rightarrow> string \<Rightarrow> tok list option" where
  "scan st [] = scan_end st"
| "scan st (c # cs) =
     (case scan_char st c of
        None \<Rightarrow> None
      | Some (ts, st') \<Rightarrow> emit ts (scan st' cs))"

section \<open>Parser\<close>

text \<open>
  What the parser waits for; the stack has an array with its elements, or an object with its members
  and the key of the value being read, for every open bracket, the last element first. Go gives up
  on more than 10000 open brackets.
\<close>

datatype await =
    Value | FirstElem | FirstKey | Key | Colon string | Done_with json

datatype frame = InArr "json list" | InObj "(string \<times> json) list" string

definition maxNestingDepth :: nat where "maxNestingDepth = 10000"

fun parse_open :: "tok \<Rightarrow> frame list \<Rightarrow> (await \<times> frame list) option" where
  "parse_open (TLit v) st = Some (Done_with v, st)"
| "parse_open TOpenArr st =
     (if length st < maxNestingDepth then Some (FirstElem, InArr [] # st) else None)"
| "parse_open TOpenObj st =
     (if length st < maxNestingDepth then Some (FirstKey, InObj [] [] # st) else None)"
| "parse_open _ st = None"

fun parse_tok :: "await \<Rightarrow> tok \<Rightarrow> frame list \<Rightarrow> (await \<times> frame list) option" where
  "parse_tok Value t st = parse_open t st"
| "parse_tok FirstElem t st =
     (case (t, st) of (TCloseArr, InArr vs # st') \<Rightarrow> Some (Done_with (JArr []), st') | _ \<Rightarrow> parse_open t st)"
| "parse_tok FirstKey t st =
     (case (t, st) of
        (TCloseObj, InObj ms k # st') \<Rightarrow> Some (Done_with (JObj []), st')
      | (TLit (JStr k), st) \<Rightarrow> Some (Colon k, st)
      | _ \<Rightarrow> None)"
| "parse_tok Key t st = (case t of TLit (JStr k) \<Rightarrow> Some (Colon k, st) | _ \<Rightarrow> None)"
| "parse_tok (Colon k) t st =
     (case (t, st) of (TColon, InObj ms k' # st') \<Rightarrow> Some (Value, InObj ms k # st') | _ \<Rightarrow> None)"
| "parse_tok (Done_with v) t st =
     (case (t, st) of
        (TComma, InArr vs # st') \<Rightarrow> Some (Value, InArr (v # vs) # st')
      | (TCloseArr, InArr vs # st') \<Rightarrow> Some (Done_with (JArr (rev (v # vs))), st')
      | (TComma, InObj ms k # st') \<Rightarrow> Some (Key, InObj ((k, v) # ms) k # st')
      | (TCloseObj, InObj ms k # st') \<Rightarrow> Some (Done_with (JObj (rev ((k, v) # ms))), st')
      | _ \<Rightarrow> None)"

fun parse_toks :: "await \<Rightarrow> tok list \<Rightarrow> frame list \<Rightarrow> json option" where
  "parse_toks a [] st = (case (a, st) of (Done_with v, []) \<Rightarrow> Some v | _ \<Rightarrow> None)"
| "parse_toks a (t # ts) st =
     (case parse_tok a t st of None \<Rightarrow> None | Some (a', st') \<Rightarrow> parse_toks a' ts st')"

definition parse_json :: "string \<Rightarrow> string + json" where
  "parse_json s =
     (case scan Between_Toks s of
        None \<Rightarrow> Inl ''invalid character''
      | Some ts \<Rightarrow> (case parse_toks Value ts [] of None \<Rightarrow> Inl ''unexpected token'' | Some v \<Rightarrow> Inr v))"

section \<open>Reading what was written\<close>

lemma hex_val_hex_digit: "d < 16 \<Longrightarrow> hex_val (hex_digit d) = Some d"
proof -
  have "\<forall>d \<in> set [0..<16]. hex_val (hex_digit d) = Some d" by code_simp
  then show "d < 16 \<Longrightarrow> hex_val (hex_digit d) = Some d" by simp
qed

lemma hex_val_0: "hex_val CHR ''0'' = Some 0"
  by code_simp

lemma unquote_Nil [simp]: "unquote [] = Some []"
  by (simp add: unquote.simps)

lemma unquote_plain:
  "c \<noteq> backslash \<Longrightarrow> c \<noteq> quote \<Longrightarrow> \<not> of_char c < (32::nat) \<Longrightarrow> unquote (c # s) = map_option (Cons c) (unquote s)"
  by (subst unquote.simps) simp

lemma unquote_simple:
  "e \<noteq> CHR ''u'' \<Longrightarrow> simple_escape e = Some x \<Longrightarrow> unquote (backslash # e # s) = map_option (Cons x) (unquote s)"
  by (subst unquote.simps) simp

lemma append_Cons_fun: "(@) [c] = Cons c"
  by (rule ext) simp

lemma unquote_u00:
  assumes "of_char c < (128::nat)"
  shows "unquote (backslash # ''u00'' @ [hex_digit (of_char c div 16), hex_digit (of_char c mod 16)] @ s) =
    map_option (Cons c) (unquote s)"
proof -
  have u: "get_u4 (''00'' @ [hex_digit (of_char c div 16), hex_digit (of_char c mod 16)] @ s) = Some (of_char c, s)"
    using assms by (simp add: hex_val_hex_digit hex_val_0 mult.commute)
  have "get_rune (of_char c) s = (of_char c, s)" "utf8 (of_char c) = [c]"
    using assms by (simp_all add: get_rune_def utf8_def)
  then show ?thesis using u by (subst unquote.simps) (simp add: append_Cons_fun del: get_u4.simps)
qed

lemma short_escapes:
  "\<forall>c \<in> set ([quote, backslash] @ map char_of [8, 9, 10, 12, 13 :: nat]). \<exists>e \<in> set (quote # backslash # ''bfnrt'').
    json_char c = [backslash, e] \<and> simple_escape e = Some c"
  by code_simp

lemma json_char_cases:
  obtains (plain) "json_char c = [c]" "c \<noteq> backslash" "c \<noteq> quote" "\<not> of_char c < (32::nat)"
    | (short) e where "json_char c = [backslash, e]" "e \<noteq> CHR ''u''" "simple_escape e = Some c"
    | (hex) "json_char c = backslash # ''u00'' @ [hex_digit (of_char c div 16), hex_digit (of_char c mod 16)]"
      "of_char c < (128::nat)"
proof (cases "c \<in> set ([quote, backslash] @ map char_of [8, 9, 10, 12, 13 :: nat])")
  case True
  from bspec [OF short_escapes this] obtain e where
    "e \<in> set (quote # backslash # ''bfnrt'')" "json_char c = [backslash, e]" "simple_escape e = Some c" by blast
  moreover have "CHR ''u'' \<notin> set (quote # backslash # ''bfnrt'')" by code_simp
  ultimately show thesis using short by blast
next
  case False
  have inj: "c = char_of n" if "of_char c = (n::nat)" for n using that by (metis char_of_char)
  have c: "c \<noteq> quote" "c \<noteq> backslash" "of_char c \<notin> {8, 9, 10, 12, 13 :: nat}"
    using False by (auto dest: inj)
  then have "json_char c = (if of_char c < (32::nat) \<or> c \<in> {CHR ''<'', CHR ''>'', CHR ''&''}
    then backslash # ''u00'' @ [hex_digit (of_char c div 16), hex_digit (of_char c mod 16)] else [c])"
    by (simp add: json_char_def Let_def)
  with plain hex c(1,2) show thesis
    by (cases "of_char c < (32::nat) \<or> c \<in> {CHR ''<'', CHR ''>'', CHR ''&''}") auto
qed

lemma unquote_json_char: "unquote (json_char c @ s) = map_option (Cons c) (unquote s)"
  by (cases rule: json_char_cases [of c])
    (simp_all add: unquote_plain unquote_simple unquote_u00 [simplified])

lemma unquote_json_string: "unquote (concat (map json_char s)) = Some s"
  by (induction s) (simp_all add: unquote_json_char)


text \<open>The tokens of a value, and what may follow a value.\<close>

fun sep_by :: "'a list \<Rightarrow> 'a list list \<Rightarrow> 'a list" where
  "sep_by s [] = []"
| "sep_by s [x] = x"
| "sep_by s (x # y # ys) = x @ s @ sep_by s (y # ys)"

fun toks :: "json \<Rightarrow> tok list" where
  "toks (JArr vs) = TOpenArr # sep_by [TComma] (map toks vs) @ [TCloseArr]"
| "toks (JObj ms) = TOpenObj # sep_by [TComma] (map (\<lambda>(k, v). TLit (JStr k) # TColon # toks v) ms) @ [TCloseObj]"
| "toks v = [TLit v]"

text \<open>All numbers in a value are literals; the depth of its brackets.\<close>

fun json_ok :: "json \<Rightarrow> bool" where
  "json_ok (JNum n) = valid_number n"
| "json_ok (JArr vs) = list_all json_ok vs"
| "json_ok (JObj ms) = list_all (\<lambda>(k, v). json_ok v) ms"
| "json_ok _ = True"

fun depth :: "json \<Rightarrow> nat" where
  "depth (JArr vs) = Suc (foldr max (map depth vs) 0)"
| "depth (JObj ms) = Suc (foldr max (map (\<lambda>(k, v). depth v) ms) 0)"
| "depth _ = 0"

lemma emit_simps [simp]:
  "emit [] r = r" "emit ts (emit ts' r) = emit (ts @ ts') r" "emit ts None = None" "emit ts (Some ts') = Some (ts @ ts')"
  by (cases r; simp add: emit_def)+

lemma hex_digit_plain: "d < 16 \<Longrightarrow> hex_digit d \<noteq> quote \<and> hex_digit d \<noteq> backslash"
proof -
  have "\<forall>d \<in> set [0..<16]. hex_digit d \<noteq> quote \<and> hex_digit d \<noteq> backslash" by code_simp
  then show "d < 16 \<Longrightarrow> hex_digit d \<noteq> quote \<and> hex_digit d \<noteq> backslash" by simp
qed

lemma scan_json_char: "scan (InStr acc) (json_char c @ r) = scan (InStr (rev (json_char c) @ acc)) r"
  by (cases rule: json_char_cases [of c]) (simp_all add: hex_digit_plain)

lemma scan_InStr:
  "unquote (rev acc @ concat (map json_char s)) = Some x \<Longrightarrow>
    scan (InStr acc) (concat (map json_char s) @ quote # r) = emit [TLit (JStr x)] (scan Between_Toks r)"
  by (induction s arbitrary: acc) (simp_all add: scan_json_char)

lemma scan_string: "scan Between_Toks (json_string s @ r) = emit [TLit (JStr s)] (scan Between_Toks r)"
proof -
  have "scan_begin quote = Some ([], InStr [])" by code_simp
  then show ?thesis by (simp add: json_string_def scan_InStr unquote_json_string)
qed

lemma scan_begin_punctuation: "punctuation c = Some t \<Longrightarrow> scan_begin c = Some ([t], Between_Toks)"
  by (auto simp: scan_begin_def punctuation_def is_json_space_def split: if_splits)

text \<open>What may follow a value: nothing, a comma or a closing bracket.\<close>

definition follows :: "string \<Rightarrow> bool" where
  "follows r \<longleftrightarrow> r = [] \<or> hd r \<in> set '',]}''"

lemma follows_simps [simp]: "follows []" "follows (CHR '','' # r)" "follows (CHR '']'' # r)" "follows (CHR ''}'' # r)"
  by (simp_all add: follows_def)

lemma follows_not: "follows (c # r) \<Longrightarrow> \<not> is_letter c \<and> \<not> is_number_char c"
  by (auto simp: follows_def is_letter_def is_number_char_def is_digit_def)

lemma scan_InWord:
  assumes "list_all is_letter w" and "follows r" and "word_value (rev acc @ w) = Some v"
  shows "scan (InWord acc) (w @ r) = emit [TLit v] (scan Between_Toks r)"
  using assms
proof (induction w arbitrary: acc)
  case Nil
  then show ?case by (cases r) (auto dest: follows_not split: option.splits)
qed simp

lemma scan_word:
  assumes "word_value w = Some v" and "follows r"
  shows "scan Between_Toks (w @ r) = emit [TLit v] (scan Between_Toks r)"
proof -
  have "\<forall>w \<in> set [''null'', ''true'', ''false'']. list_all is_letter w \<and> w \<noteq> [] \<and> scan_begin (hd w) = Some ([], InWord [hd w])"
    by code_simp
  moreover have "w \<in> set [''null'', ''true'', ''false'']"
    using assms(1) by (auto simp: word_value_def split: if_splits)
  ultimately obtain x xs where "w = x # xs" "list_all is_letter xs" "scan_begin x = Some ([], InWord [x])"
    by (cases w) auto
  with assms show ?thesis by (simp add: scan_InWord)
qed

lemma scan_InNum:
  assumes "list_all is_number_char w" and "follows r" and "valid_number (rev acc @ w)"
  shows "scan (InNum acc) (w @ r) = emit [TLit (JNum (rev acc @ w))] (scan Between_Toks r)"
  using assms
proof (induction w arbitrary: acc)
  case Nil
  then show ?case by (cases r) (auto dest: follows_not split: option.splits)
qed simp

lemma valid_exponent_chars: "valid_exponent s \<Longrightarrow> list_all is_number_char s"
  by (auto simp: valid_exponent_def is_number_char_def list_all_iff Let_def split: list.splits if_splits)

lemma digits_chars: "list_all is_number_char (dropWhile is_digit u) \<Longrightarrow> list_all is_number_char u"
  by (induction u) (auto simp: is_number_char_def split: if_splits)

lemma valid_fraction_chars: "valid_fraction s \<Longrightarrow> list_all is_number_char s"
proof (cases s)
  case (Cons c cs)
  assume "valid_fraction s"
  with Cons show ?thesis
    using valid_exponent_chars [of s] valid_exponent_chars [of "dropWhile is_digit cs"] digits_chars [of cs]
    by (cases "c = CHR ''.''") (simp_all add: valid_fraction_def is_number_char_def)
qed simp

lemma valid_unsigned_chars: "valid_unsigned u \<Longrightarrow> list_all is_number_char u"
  by (rule digits_chars, rule valid_fraction_chars) (simp add: valid_unsigned_def Let_def)

lemma valid_number_chars:
  assumes "valid_number n"
  obtains d ds where "n = d # ds" "is_digit d \<or> d = CHR ''-''" "list_all is_number_char ds"
proof -
  have "is_digit d \<and> list_all is_number_char ds" if "valid_unsigned (d # ds)" for d ds
    using that valid_unsigned_chars [OF that] by (auto simp: valid_unsigned_def split: if_splits)
  with assms that valid_unsigned_chars show thesis
    by (auto simp: valid_number_def split: list.splits if_splits)
qed

lemma scan_number:
  assumes "valid_number n" and "follows r"
  shows "scan Between_Toks (n @ r) = emit [TLit (JNum n)] (scan Between_Toks r)"
proof -
  obtain d ds where n: "n = d # ds" "is_digit d \<or> d = CHR ''-''" "list_all is_number_char ds"
    using valid_number_chars [OF assms(1)] by blast
  have "\<forall>c \<in> set (CHR ''-'' # map char_of [48..<58]). scan_begin c = Some ([], InNum [c])" by code_simp
  moreover have "d \<in> set (map char_of [48..<58])" if "is_digit d"
  proof -
    have "of_char d \<in> set [48..<58]" using that unfolding set_upt is_digit_def by auto
    then have "char_of (of_char d :: nat) \<in> set (map char_of [48..<58])" unfolding set_map by (rule imageI)
    then show ?thesis by (simp only: char_of_char)
  qed
  then have "d \<in> set (CHR ''-'' # map char_of [48..<58])" using n(2) by (metis list.set_intros)
  ultimately have "scan_begin d = Some ([], InNum [d])" by blast
  with n assms show ?thesis by (simp add: scan_InNum)
qed

lemma scan_punctuation:
  "punctuation c = Some t \<Longrightarrow> scan Between_Toks (c # r) = emit [t] (scan Between_Toks r)"
  by (simp add: scan_begin_punctuation)

lemma punctuation_simps:
  "punctuation CHR ''['' = Some TOpenArr" "punctuation CHR '']'' = Some TCloseArr"
  "punctuation CHR ''{'' = Some TOpenObj" "punctuation CHR ''}'' = Some TCloseObj"
  "punctuation CHR '','' = Some TComma" "punctuation CHR '':'' = Some TColon"
  by code_simp+

text \<open>A text scans to some tokens wherever a comma or a closing bracket follows.\<close>

definition scans :: "string \<Rightarrow> tok list \<Rightarrow> bool" where
  "scans s ts \<longleftrightarrow> (\<forall>r. follows r \<longrightarrow> scan Between_Toks (s @ r) = emit ts (scan Between_Toks r))"

declare scan.simps(2) [simp del]

lemma scans_join:
  assumes "\<forall>x \<in> set xs. scans (f x) (g x)" and "follows r"
  shows "scan Between_Toks (join (map f xs) '','' @ r) = emit (sep_by [TComma] (map g xs)) (scan Between_Toks r)"
  using assms
proof (induction xs rule: induct_list012)
  case (3 x y zs)
  have "scan Between_Toks (f x @ CHR '','' # u) = emit (g x @ [TComma]) (scan Between_Toks u)" for u
    using 3(3) by (simp add: scans_def scan_punctuation punctuation_simps)
  with 3 show ?case by simp
qed (simp_all add: scans_def)

lemma scans_bracketed:
  assumes "\<forall>x \<in> set xs. scans (f x) (g x)" and "punctuation a = Some t" and "punctuation b = Some u" and "\<And>r. follows (b # r)"
  shows "scans (a # join (map f xs) '','' @ [b]) (t # sep_by [TComma] (map g xs) @ [u])"
  using scans_join [OF assms(1,4)] assms(2,3) by (simp add: scans_def scan_punctuation)

lemma scans_member: "scans s ts \<Longrightarrow> scans (json_string k @ '':'' @ s) (TLit (JStr k) # TColon # ts)"
  by (simp add: scans_def scan_string scan_punctuation punctuation_simps)

lemma scans_words: "scans ''null'' [TLit JNull]" "scans ''true'' [TLit (JBool True)]" "scans ''false'' [TLit (JBool False)]"
  unfolding scans_def by (intro allI impI scan_word; assumption?; code_simp)+

lemma render_scans: "json_ok v \<Longrightarrow> scans (render v) (toks v)"
proof (induction v rule: toks.induct)
  case (1 vs)
  then show ?case
    using scans_bracketed [of vs render toks] by (simp add: punctuation_simps list_all_iff)
next
  case (2 ms)
  then have "\<forall>(k, v) \<in> set ms. scans (json_string k @ '':'' @ render v) (TLit (JStr k) # TColon # toks v)"
    by (fastforce simp: list_all_iff intro: scans_member [simplified])
  then show ?case
    using scans_bracketed [of ms "\<lambda>(k, v). json_string k @ '':'' @ render v" "\<lambda>(k, v). TLit (JStr k) # TColon # toks v"]
    by (simp add: punctuation_simps case_prod_beta')
qed (simp_all add: scans_words, simp_all add: scans_def scan_number scan_string)

section \<open>Parsing the tokens of a value\<close>

lemma parse_first_elem: "parse_toks FirstElem (toks v @ ts) st = parse_toks Value (toks v @ ts) st"
  by (cases v) auto

lemma parse_elems:
  assumes "\<forall>v \<in> set (v # vs). \<forall>ts st. length st + depth v \<le> maxNestingDepth \<longrightarrow>
      parse_toks Value (toks v @ ts) st = parse_toks (Done_with v) ts st"
    and "\<forall>v \<in> set (v # vs). Suc (length st) + depth v \<le> maxNestingDepth"
  shows "parse_toks Value (sep_by [TComma] (map toks (v # vs)) @ TCloseArr # ts) (InArr acc # st) =
    parse_toks (Done_with (JArr (rev acc @ v # vs))) ts st"
  using assms
proof (induction vs arbitrary: v acc)
  case (Cons w vs)
  then show ?case by simp
qed simp

lemma parse_members:
  assumes "\<forall>(k, v) \<in> set ((k, v) # ms). \<forall>ts st. length st + depth v \<le> maxNestingDepth \<longrightarrow>
      parse_toks Value (toks v @ ts) st = parse_toks (Done_with v) ts st"
    and "\<forall>(k, v) \<in> set ((k, v) # ms). Suc (length st) + depth v \<le> maxNestingDepth"
  shows "parse_toks Key (sep_by [TComma] (map (\<lambda>(k, v). TLit (JStr k) # TColon # toks v) ((k, v) # ms)) @ TCloseObj # ts)
      (InObj acc k' # st) = parse_toks (Done_with (JObj (rev acc @ (k, v) # ms))) ts st"
  using assms
proof (induction ms arbitrary: k v acc k')
  case (Cons m ms)
  obtain k1 v1 where "m = (k1, v1)" by (cases m)
  with Cons show ?case by simp
qed simp

lemma depth_elem: "x \<in> set xs \<Longrightarrow> f x \<le> foldr max (map f xs) (0 :: nat)"
  by (induction xs) auto

lemma parse_toks_value:
  "length st + depth v \<le> maxNestingDepth \<Longrightarrow> parse_toks Value (toks v @ ts) st = parse_toks (Done_with v) ts st"
proof (induction v arbitrary: ts st rule: toks.induct)
  case (1 vs)
  show ?case
  proof (cases vs)
    case Nil
    with 1 show ?thesis by simp
  next
    case (Cons v vs')
    have "\<forall>v \<in> set vs. Suc (length st) + depth v \<le> maxNestingDepth"
      using 1(2) depth_elem [of _ vs depth] by fastforce
    with parse_elems [of v vs' st ts "[]"] 1 Cons parse_first_elem show ?thesis by (cases vs') simp_all
  qed
next
  case (2 ms)
  show ?case
  proof (cases ms)
    case Nil
    with 2 show ?thesis by simp
  next
    case (Cons m ms')
    have "\<forall>(k, v) \<in> set ms. Suc (length st) + depth v \<le> maxNestingDepth"
      using 2(2) depth_elem [of _ ms "\<lambda>(k, v). depth v"] by fastforce
    moreover obtain k v where "m = (k, v)" by (cases m)
    ultimately show ?thesis using parse_members [of k v ms' st ts "[]"] 2(1) 2(2) Cons by (cases ms') fastforce+
  qed
qed simp_all

lemma parse_render: "json_ok v \<Longrightarrow> depth v \<le> maxNestingDepth \<Longrightarrow> parse_json (render v) = Inr v"
  using render_scans [of v, unfolded scans_def, rule_format, of "[]"] parse_toks_value [of "[]" v "[]"]
  by (simp add: parse_json_def)

end
