(* ===== verification/Resource_Controller.thy ===== *)
theory Resource_Controller
  imports Watcher_Types Rate_Limiting_Queue
begin

text \<open>
  The controller of the resource watcher (\<open>controller/controller.go\<close>): the handlers of the informer
  put events into a rate limiting queue of \<open>pkg/workqueue\<close>, a worker takes them out and calls the
  event handlers. The informer, the REST mapper and the API are parameters.
\<close>

section \<open>Data\<close>

definition controller_maxRetries :: int where
  "controller_maxRetries = 5"

record ('o, 'b, 'w) Controller =
  c_queue :: "('o InformerEvent, 'b) rateLimitingType"
  eventHandlers :: "(Event, 'o, 'w) EventHandler list"
  sourceConf :: watcher_Config
  listenEvents :: "(string \<times> bool) list"
  controllerType :: string
  cluster :: string

section \<open>Setup\<close>

text \<open>The options with which the informer lists and watches; \<open>FormatLabels\<close> is of apimachinery.\<close>

record 'r listWatch =
  lw_resource :: 'r
  lw_namespace :: string
  lw_selector :: "string \<Rightarrow> string"

definition newResourceController ::
    "'o InformerEvent waitFor \<Rightarrow> 'b \<Rightarrow> string \<Rightarrow> ('o, 'b, 'w) Controller" where
  "newResourceController z bucket clus =
     \<lparr>c_queue = NewRateLimitingQueue globalMetricsFactory z (DefaultControllerRateLimiter bucket),
      eventHandlers = [], sourceConf = zero_Config, listenEvents = [], controllerType = '''', cluster = clus\<rparr>"

text \<open>\<open>Setup\<close> ends the process (\<open>logger.Fatal\<close>) when the type is not known; this is \<open>None\<close>.\<close>

definition Setup ::
    "(string \<Rightarrow> 'gv option) \<Rightarrow> ('gv \<Rightarrow> string \<Rightarrow> 'r option) \<Rightarrow> ((string \<times> string) list \<Rightarrow> string) \<Rightarrow>
      'o InformerEvent waitFor \<Rightarrow> 'b \<Rightarrow> string \<Rightarrow> watcher_Config \<Rightarrow> (Event, 'o, 'w) EventHandler list \<Rightarrow>
      ('r listWatch \<times> ('o, 'b, 'w) Controller) option" where
  "Setup ParseGroupVersion RESTMapping FormatLabels z bucket clus ctrlConf eh =
     (case ParseGroupVersion (APIVersion ctrlConf) of
        None \<Rightarrow> None
      | Some gv \<Rightarrow>
          (case RESTMapping gv (Kind ctrlConf) of
             None \<Rightarrow> None
           | Some res \<Rightarrow>
               Some (\<lparr>lw_resource = res, lw_namespace = Namespace ctrlConf,
                      lw_selector = (\<lambda>sel. if length (map_entries (MatchingLabels ctrlConf)) > 0
                        then FormatLabels (map_entries (MatchingLabels ctrlConf)) else sel)\<rparr>,
                     (newResourceController z bucket clus)\<lparr>sourceConf := ctrlConf, eventHandlers := eh,
                       listenEvents := fold (\<lambda>e. AList.update e True) (Events ctrlConf) [],
                       controllerType := SourceTypeResourceWatcher\<rparr>)))"

section \<open>Handlers of the informer\<close>

definition enqueue ::
    "time \<Rightarrow> string \<Rightarrow> 'o informer_obj \<Rightarrow> ('o, 'b, 'w) Controller \<Rightarrow> ('o, 'b, 'w) Controller result" where
  "enqueue now typ obj c =
     (let newEvent = \<lparr>ie_Event = \<lparr>ev_Type = typ, ev_Cluster = cluster c\<rparr>, EventObj = obj\<rparr>
      in case GetObjectMetaData obj of
           Ok m \<Rightarrow> Ok (c\<lparr>c_queue := rl_Add now newEvent (c_queue c)\<rparr>)
         | Err e \<Rightarrow> Err e
         | Panic \<Rightarrow> Panic)"

definition AddFunc ::
    "time \<Rightarrow> 'o informer_obj \<Rightarrow> ('o, 'b, 'w) Controller \<Rightarrow> ('o, 'b, 'w) Controller result" where
  "AddFunc now obj c = enqueue now EventTypeCreate obj c"

definition UpdateFunc ::
    "time \<Rightarrow> 'o informer_obj \<Rightarrow> 'o informer_obj \<Rightarrow> ('o, 'b, 'w) Controller \<Rightarrow> ('o, 'b, 'w) Controller result" where
  "UpdateFunc now old new c = enqueue now EventTypeUpdate new c"

definition DeleteFunc ::
    "time \<Rightarrow> 'o informer_obj \<Rightarrow> ('o, 'b, 'w) Controller \<Rightarrow> ('o, 'b, 'w) Controller result" where
  "DeleteFunc now obj c = enqueue now EventTypeDelete obj c"

section \<open>The worker\<close>

text \<open>An error of a handler is logged; the next handler is called all the same.\<close>

fun call_each :: "(Event, 'o, 'w) EventHandler list \<Rightarrow> string \<Rightarrow> Event \<Rightarrow> 'o \<Rightarrow> 'w \<Rightarrow> 'w" where
  "call_each [] typ e obj w = w"
| "call_each (fn # fns) typ e obj w = (case fn typ e obj w of (err, w') \<Rightarrow> call_each fns typ e obj w')"

definition callEventHandler :: "('o, 'b, 'w) Controller \<Rightarrow> 'o \<Rightarrow> Event \<Rightarrow> 'w \<Rightarrow> 'w" where
  "callEventHandler c obj e w = call_each (eventHandlers c) (controllerType c) e obj w"

text \<open>\<open>created\<close> is \<open>GetCreationTimestamp\<close> of an object, \<open>start\<close> is \<open>serverStartTime\<close>.\<close>

definition processItem ::
    "('o \<Rightarrow> time) \<Rightarrow> time \<Rightarrow> ('o, 'b, 'w) Controller \<Rightarrow> 'o InformerEvent \<Rightarrow> 'w \<Rightarrow> (string option \<times> 'w) result" where
  "processItem created start c newEvent w =
     (case GetObjectMetaData (EventObj newEvent) of
        Err e \<Rightarrow> Err e
      | Panic \<Rightarrow> Panic
      | Ok objectMeta \<Rightarrow>
          let e = ie_Event newEvent
          in if length (listenEvents c) > 0 \<and> map_of (listenEvents c) (ev_Type e) \<noteq> Some True
             then Ok (None, w)
             else if ev_Type e = EventTypeCreate then
               (if time_Sub (created objectMeta) start > 0
                then Ok (None, callEventHandler c objectMeta e w) else Ok (None, w))
             else Ok (None, callEventHandler c objectMeta e w))"

datatype next_result = NextBlocked | NextQuit | NextPanic | NextContinue

definition processNextItem ::
    "(float64 \<Rightarrow> int) \<Rightarrow> ('b \<Rightarrow> duration \<times> 'b) \<Rightarrow> time \<Rightarrow> bool \<Rightarrow> ('o \<Rightarrow> time) \<Rightarrow> time \<Rightarrow>
      ('o, 'b, 'w) Controller \<Rightarrow> 'w \<Rightarrow> next_result \<times> ('o, 'b, 'w) Controller \<times> 'w" where
  "processNextItem cvt reserve now pick created start c w =
     (case rl_Get now (c_queue c) of
        (Blocked, q) \<Rightarrow> (NextBlocked, c, w)
      | (Quit, q) \<Rightarrow> (NextQuit, c\<lparr>c_queue := q\<rparr>, w)
      | (Got newEvent, q) \<Rightarrow>
          (case processItem created start c newEvent w of
             Ok (err, w') \<Rightarrow>
               let q' = (if err = None then queue_Forget newEvent q
                         else if int (queue_NumRequeues newEvent q) < controller_maxRetries
                         then fst (AddRateLimited cvt reserve now pick newEvent q)
                         else queue_Forget newEvent q)
               in (NextContinue, c\<lparr>c_queue := rl_Done now newEvent q'\<rparr>, w')
           | _ \<Rightarrow> (NextPanic, c\<lparr>c_queue := rl_Done now newEvent q\<rparr>, w)))"

text \<open>
  \<open>runWorker\<close> loops as long as \<open>processNextItem\<close> returns true; \<open>None\<close> is the end of the fuel.
\<close>

fun runWorker ::
    "nat \<Rightarrow> (float64 \<Rightarrow> int) \<Rightarrow> ('b \<Rightarrow> duration \<times> 'b) \<Rightarrow> time \<Rightarrow> bool \<Rightarrow> ('o \<Rightarrow> time) \<Rightarrow> time \<Rightarrow>
      ('o, 'b, 'w) Controller \<Rightarrow> 'w \<Rightarrow> (next_result \<times> ('o, 'b, 'w) Controller \<times> 'w) option" where
  "runWorker 0 cvt reserve now pick created start c w = None"
| "runWorker (Suc n) cvt reserve now pick created start c w =
     (case processNextItem cvt reserve now pick created start c w of
        (NextContinue, c', w') \<Rightarrow> runWorker n cvt reserve now pick created start c' w'
      | r \<Rightarrow> Some r)"

text \<open>
  \<open>Run\<close>: wait for the informer's cache, then run the worker again and again until the stop channel
  is closed (\<open>wait.Until\<close>); the queue is shut down by a deferred call, when \<open>Run\<close> returns.
\<close>

datatype run_pc = Syncing | Between | InWorker | RunReturned

record ('o, 'b, 'w) ctl_sys =
  ctl :: "('o, 'b, 'w) Controller"
  world :: 'w
  rpc :: run_pc
  stopClosed :: bool

definition run_returns :: "('o, 'b, 'w) ctl_sys \<Rightarrow> ('o, 'b, 'w) ctl_sys" where
  "run_returns s = s\<lparr>ctl := (ctl s)\<lparr>c_queue := rl_ShutDown (c_queue (ctl s))\<rparr>, rpc := RunReturned\<rparr>"

inductive Run_step ::
    "(float64 \<Rightarrow> int) \<Rightarrow> ('b \<Rightarrow> duration \<times> 'b) \<Rightarrow> ('o \<Rightarrow> time) \<Rightarrow> time \<Rightarrow>
      ('o, 'b, 'w) ctl_sys \<Rightarrow> ('o, 'b, 'w) ctl_sys \<Rightarrow> bool"
  for cvt reserve created start where
  informs: "enqueue now typ obj (ctl s) = Ok c \<Longrightarrow> Run_step cvt reserve created start s (s\<lparr>ctl := c\<rparr>)"
| delayed: "rl_arrive (c_queue (ctl s)) q \<Longrightarrow>
    Run_step cvt reserve created start s (s\<lparr>ctl := (ctl s)\<lparr>c_queue := q\<rparr>\<rparr>)"
| stops: "Run_step cvt reserve created start s (s\<lparr>stopClosed := True\<rparr>)"
| synced: "rpc s = Syncing \<Longrightarrow> Run_step cvt reserve created start s (s\<lparr>rpc := Between\<rparr>)"
| not_synced: "rpc s = Syncing \<Longrightarrow> stopClosed s \<Longrightarrow> Run_step cvt reserve created start s (run_returns s)"
| until_runs: "rpc s = Between \<Longrightarrow> \<not> stopClosed s \<Longrightarrow>
    Run_step cvt reserve created start s (s\<lparr>rpc := InWorker\<rparr>)"
| until_ends: "rpc s = Between \<Longrightarrow> stopClosed s \<Longrightarrow> Run_step cvt reserve created start s (run_returns s)"
| works: "rpc s = InWorker \<Longrightarrow>
    processNextItem cvt reserve now pick created start (ctl s) (world s) = (NextContinue, c, w) \<Longrightarrow>
    Run_step cvt reserve created start s (s\<lparr>ctl := c, world := w\<rparr>)"
| worker_returns: "rpc s = InWorker \<Longrightarrow>
    processNextItem cvt reserve now pick created start (ctl s) (world s) = (NextQuit, c, w) \<Longrightarrow>
    Run_step cvt reserve created start s (s\<lparr>ctl := c, world := w, rpc := Between\<rparr>)"

inductive Run_steps ::
    "(float64 \<Rightarrow> int) \<Rightarrow> ('b \<Rightarrow> duration \<times> 'b) \<Rightarrow> ('o \<Rightarrow> time) \<Rightarrow> time \<Rightarrow>
      ('o, 'b, 'w) ctl_sys \<Rightarrow> ('o, 'b, 'w) ctl_sys \<Rightarrow> bool"
  for cvt reserve created start where
  Run_refl: "Run_steps cvt reserve created start s s"
| Run_snoc: "Run_steps cvt reserve created start s s' \<Longrightarrow> Run_step cvt reserve created start s' s'' \<Longrightarrow>
    Run_steps cvt reserve created start s s''"

section \<open>What the worker does\<close>

abbreviation base :: "('o, 'b, 'w) Controller \<Rightarrow> 'o InformerEvent Type" where
  "base c \<equiv> Interface (DelayingInterface (c_queue c))"

text \<open>The events that reach the event handlers, with their objects.\<close>

definition wanted :: "('o \<Rightarrow> time) \<Rightarrow> time \<Rightarrow> ('o, 'b, 'w) Controller \<Rightarrow> Event \<Rightarrow> 'o \<Rightarrow> bool" where
  "wanted created start c e obj \<longleftrightarrow>
     (listenEvents c = [] \<or> map_of (listenEvents c) (ev_Type e) = Some True) \<and>
     (ev_Type e = EventTypeCreate \<longrightarrow> start < created obj)"

fun deliveries ::
    "('o \<Rightarrow> time) \<Rightarrow> time \<Rightarrow> ('o, 'b, 'w) Controller \<Rightarrow> 'o InformerEvent list \<Rightarrow> (Event \<times> 'o) list" where
  "deliveries created start c [] = []"
| "deliveries created start c (ev # evs) =
     (case EventObj ev of
        APIObject obj \<Rightarrow> (if wanted created start c (ie_Event ev) obj then [(ie_Event ev, obj)] else [])
      | DeletedFinalStateUnknown k obj \<Rightarrow> []) @ deliveries created start c evs"

definition deliver :: "('o, 'b, 'w) Controller \<Rightarrow> (Event \<times> 'o) list \<Rightarrow> 'w \<Rightarrow> 'w" where
  "deliver c ds w = fold (\<lambda>(e, obj). callEventHandler c obj e) ds w"

lemma time_Sub_pos: "0 < time_Sub t u \<longleftrightarrow> u < t"
  by (auto simp: time_Sub_def max_int64_def min_int64_def)

lemma processItem_effect:
  assumes "EventObj ev = APIObject obj"
  shows "processItem created start c ev w = Ok (None, deliver c (deliveries created start c [ev]) w)"
  using assms by (auto simp: processItem_def deliver_def wanted_def time_Sub_pos Let_def)

lemma deliver_append: "deliver c (xs @ ys) w = deliver c ys (deliver c xs w)"
  by (simp add: deliver_def)

lemma callEventHandler_frame [simp]: "callEventHandler (c\<lparr>c_queue := q\<rparr>) = callEventHandler c"
  by (intro ext) (simp add: callEventHandler_def)

lemma deliver_frame [simp]: "deliver (c\<lparr>c_queue := q\<rparr>) ds w = deliver c ds w"
  by (simp add: deliver_def)

lemma deliveries_frame [simp]: "deliveries created start (c\<lparr>c_queue := q\<rparr>) evs = deliveries created start c evs"
  by (induction evs) (auto simp: wanted_def split: informer_obj.splits)

lemma processNextItem_head:
  assumes inv: "rl_inv (c_queue c)" and q: "queue (base c) = ev # evs" and obj: "EventObj ev = APIObject obj"
  obtains c' where "processNextItem cvt reserve now pick created start c w =
      (NextContinue, c', deliver c (deliveries created start c [ev]) w)"
    "\<exists>q'. c' = c\<lparr>c_queue := q'\<rparr>" "rl_inv (c_queue c')" "queue (base c') = evs"
    "processing (base c') = processing (base c)"
    "ShuttingDown (base c') = ShuttingDown (base c)" "queue_NumRequeues ev (c_queue c') = 0"
proof -
  from rlq.promoted.get_ready [OF inv q, of now] obtain q1 where
    g: "rl_Get now (c_queue c) = (Got ev, q1)" "rl_inv q1"
    "queue (Interface (DelayingInterface q1)) = evs"
    "processing (Interface (DelayingInterface q1)) = insert ev (processing (base c))"
    "q_again (Interface (DelayingInterface q1)) = q_again (base c)"
    "ShuttingDown (Interface (DelayingInterface q1)) = ShuttingDown (base c)" by blast
  have ev: "ev \<notin> processing (base c)" "ev \<notin> q_again (base c)"
    using rlq.promoted.wf [OF inv] q by auto
  let ?q2 = "queue_Forget ev q1" and ?q = "rl_Done now ev (queue_Forget ev q1)"
  have f: "rl_inv ?q2" by (rule rlc.invar_forget [OF g(2)])
  have r: "ev \<in> processing (Interface (DelayingInterface ?q2))" using g by (simp add: rlc.obs_forget)
  have "processNextItem cvt reserve now pick created start c w =
      (NextContinue, c\<lparr>c_queue := ?q\<rparr>, deliver c (deliveries created start c [ev]) w)"
    using g(1) by (simp add: processNextItem_def processItem_effect [OF obj] Let_def del: deliveries.simps)
  then show thesis
    by (rule that)
      (use f r g ev in \<open>auto simp: rlq.promoted.invar_fin rlq.promoted.ready_fin rlq.promoted.running_fin
        rlq.promoted.stopping_fin rlc.obs_forget rlc.num_fin rlc.num_forget\<close>)
qed

lemma processNextItem_empty:
  assumes "rl_inv (c_queue c)" and "queue (base c) = []"
  shows "processNextItem cvt reserve now pick created start c w =
    (if ShuttingDown (base c) then NextQuit else NextBlocked, c, w)"
  using rlq.promoted.get_empty [OF assms, of now] by (simp add: processNextItem_def)

lemma deliveries_Cons: "deliveries created start c (ev # evs) =
    deliveries created start c [ev] @ deliveries created start c evs"
  by simp

lemma runWorker_drains:
  assumes "rl_inv (c_queue c)" and "\<forall>ev \<in> set (queue (base c)). \<exists>obj. EventObj ev = APIObject obj"
    and "length (queue (base c)) < n"
  shows "\<exists>c'. runWorker n cvt reserve now pick created start c w =
      Some (if ShuttingDown (base c) then NextQuit else NextBlocked, c',
        deliver c (deliveries created start c (queue (base c))) w) \<and>
    queue (base c') = [] \<and> processing (base c') = processing (base c)"
  using assms
proof (induction n arbitrary: c w)
  case (Suc n)
  show ?case
  proof (cases "queue (base c)")
    case Nil
    then show ?thesis by (simp add: processNextItem_empty [OF Suc.prems(1) Nil] deliver_def)
  next
    case (Cons ev evs)
    with Suc.prems(2) obtain obj where "EventObj ev = APIObject obj" by auto
    from processNextItem_head [OF Suc.prems(1) Cons this, of cvt reserve now pick created start w]
    obtain c' where c': "processNextItem cvt reserve now pick created start c w =
        (NextContinue, c', deliver c (deliveries created start c [ev]) w)"
      "\<exists>q'. c' = c\<lparr>c_queue := q'\<rparr>" "rl_inv (c_queue c')" "queue (base c') = evs"
      "processing (base c') = processing (base c)" "ShuttingDown (base c') = ShuttingDown (base c)"
      by blast
    have "deliver c' ds w' = deliver c ds w'" "deliveries created start c' evs = deliveries created start c evs"
      for ds w' using c'(2) by auto
    with Suc.IH [OF c'(3), of "deliver c (deliveries created start c [ev]) w"] c' Suc.prems Cons
    show ?thesis by (simp add: deliveries_Cons [of _ _ _ ev evs] deliver_append del: deliveries.simps)
  qed
qed simp

text \<open>While the queue is not shut down, the worker goes on.\<close>

lemma processNextItem_open:
  assumes "rl_inv (c_queue c)" and "\<not> ShuttingDown (base c)"
    and "processNextItem cvt reserve now pick created start c w = (r, c', w')"
  shows "r \<noteq> NextQuit \<and> (r = NextContinue \<longrightarrow> rl_inv (c_queue c') \<and> \<not> ShuttingDown (base c'))"
proof (cases "queue (base c)")
  case Nil
  with processNextItem_empty [OF assms(1) Nil] assms(2,3) show ?thesis by auto
next
  case (Cons ev evs)
  show ?thesis
  proof (cases "EventObj ev")
    case (APIObject obj)
    from processNextItem_head [OF assms(1) Cons this, of cvt reserve now pick created start w]
    obtain c1 where "processNextItem cvt reserve now pick created start c w =
        (NextContinue, c1, deliver c (deliveries created start c [ev]) w)"
      "rl_inv (c_queue c1)" "ShuttingDown (base c1) = ShuttingDown (base c)" by blast
    with assms(2,3) show ?thesis by simp
  next
    case (DeletedFinalStateUnknown k obj)
    with rlq.promoted.get_ready [OF assms(1) Cons, of now] assms(3)
    show ?thesis by (auto simp: processNextItem_def processItem_def)
  qed
qed

lemma still_in_worker:
  assumes "Run_step cvt reserve created start s s'" and "rpc s = InWorker"
    and "rl_inv (c_queue (ctl s))" and "\<not> ShuttingDown (base (ctl s))"
  shows "rpc s' = InWorker \<and> rl_inv (c_queue (ctl s')) \<and> \<not> ShuttingDown (base (ctl s'))"
  using assms(1)
proof cases
  case (informs now t obj c)
  with assms(2,3,4) show ?thesis
    by (auto simp: enqueue_def Let_def rlq.promoted.invar_add rlq.promoted.stopping_add split: result.splits)
next
  case (delayed q)
  with assms(2,3,4) rlc.invar_arrive [OF delayed(2)] rlc.obs_arrive [OF delayed(2)] show ?thesis by auto
next
  case (works now pick c w)
  with assms(2,3,4) processNextItem_open [OF assms(3,4) works(3)] show ?thesis by auto
next
  case (worker_returns now pick c w)
  with processNextItem_open [OF assms(3,4) worker_returns(3)] show ?thesis by auto
qed (use assms(2,3,4) in auto)

section \<open>Properties\<close>


text \<open>A controller whose handler fails and counts its calls, with two updates and an old object queued.\<close>

definition counting_controller :: "(nat, unit, nat) Controller" where
  "counting_controller = (newResourceController \<lparr>data = \<lparr>ie_Event = \<lparr>ev_Type = '''', ev_Cluster = ''''\<rparr>,
       EventObj = APIObject 0\<rparr>, readyAt = 0, index = 0\<rparr> () ''local'')
     \<lparr>eventHandlers := [\<lambda>typ e obj w. (Some ''failed'', w + obj)]\<rparr>"

definition counting_queued :: "(nat, unit, nat) Controller" where
  "counting_queued = (case UpdateFunc 0 (APIObject 1) (APIObject 10) counting_controller of
     Ok c \<Rightarrow> (case AddFunc 0 (APIObject 3) c of
       Ok c \<Rightarrow> (case DeleteFunc 0 (APIObject 20) c of Ok c \<Rightarrow> c | _ \<Rightarrow> c) | _ \<Rightarrow> c) | _ \<Rightarrow> counting_controller)"

lemmas controller_eval = counting_queued_def counting_controller_def UpdateFunc_def AddFunc_def
  DeleteFunc_def enqueue_def newResourceController_def EventTypeUpdate_def EventTypeCreate_def
  EventTypeDelete_def Let_def op_defs

lemma new_controller_inv: "rl_inv (c_queue (newResourceController z b clus))"
  using d_inv_new by (simp add: newResourceController_def rl_inv_def NewRateLimitingQueue_def
      NewDelayingQueue_def NewNamedDelayingQueue_def [symmetric] DefaultControllerRateLimiter_def
      NewMaxOfRateLimiter_def NewItemExponentialFailureRateLimiter_def)

lemma counting_queued_inv: "rl_inv (c_queue counting_queued)"
  by (simp add: counting_queued_def counting_controller_def UpdateFunc_def AddFunc_def DeleteFunc_def
      enqueue_def Let_def) (intro rlq.promoted.invar_add new_controller_inv)


text \<open>
  C31. A running controller does not stop. The worker returns only when the queue is shut down, the
  queue is shut down only when \<open>Run\<close> returns, and \<open>Run\<close> returns only after the worker: once the
  worker has been started, closing the stop channel has no effect on it.
\<close>

theorem controller_does_not_stop:
  assumes "Run_steps cvt reserve created start s s'" and "rpc s = InWorker"
    and "rl_inv (c_queue (ctl s))" and "\<not> ShuttingDown (base (ctl s))"
  shows "rpc s' = InWorker \<and> \<not> ShuttingDown (base (ctl s'))"
proof -
  have "rpc s' = InWorker \<and> rl_inv (c_queue (ctl s')) \<and> \<not> ShuttingDown (base (ctl s'))"
    using assms
  proof (induction rule: Run_steps.induct)
    case (Run_snoc s s' s'')
    then show ?case using still_in_worker [OF Run_snoc.hyps(2)] by blast
  qed simp
  then show ?thesis by simp
qed

theorem controller_does_not_stop_witness:
  "\<exists>s'. Run_steps (\<lambda>f. 0) (\<lambda>b. (0, b)) (\<lambda>obj. int obj) 5
      \<lparr>ctl = counting_queued, world = 0, rpc = InWorker, stopClosed = False\<rparr> s' \<and>
    stopClosed s' \<and> rpc s' = InWorker"
proof -
  let ?s = "\<lparr>ctl = counting_queued, world = 0, rpc = InWorker, stopClosed = False\<rparr>"
  have r: "Run_steps (\<lambda>f. 0) (\<lambda>b. (0, b)) (\<lambda>obj. int obj) 5 ?s (?s\<lparr>stopClosed := True\<rparr>)"
    by (rule Run_snoc [OF Run_refl stops])
  have "\<not> ShuttingDown (base counting_queued)" by (simp add: controller_eval)
  with controller_does_not_stop [OF r] counting_queued_inv
  have "rpc (?s\<lparr>stopClosed := True\<rparr>) = InWorker" by simp
  with r show ?thesis by (intro exI [of _ "?s\<lparr>stopClosed := True\<rparr>"]) simp
qed

end
