(* ===== verification/Resource_Watcher.thy ===== *)
theory Resource_Watcher
  imports Resource_Controller
begin

text \<open>
  The resource watcher (\<open>pkg/source/builtin/k8sresourcewatcher/k8s_resource_watcher.go\<close>): it merges
  the configurations of all triggers on the same resources and runs one controller per
  configuration and cluster. The API clients are parameters.
\<close>

section \<open>Data\<close>

definition TypeClusterGateway :: string where "TypeClusterGateway = ''cluster-gateway''"
definition TypeClusterGatewaySecret :: string where "TypeClusterGatewaySecret = ''cluster-gateway-secret''"
definition defaultCluster :: string where "defaultCluster = ''local''"
definition clusterCertKey :: string where "clusterCertKey = ''tls.key''"
definition clusterCertData :: string where "clusterCertData = ''tls.crt''"
definition clusterCAData :: string where "clusterCAData = ''ca.crt''"
definition clusterEndpoint :: string where "clusterEndpoint = ''endpoint''"

record ('o, 'w) K8sResourceWatcher =
  configs :: "(string \<times> watcher_Config) list"
  w_eventHandlers :: "string \<Rightarrow> (Event, 'o, 'w) EventHandler list"

definition watcher_New :: "('o, 'w) K8sResourceWatcher" where
  "watcher_New = \<lparr>configs = [], w_eventHandlers = (\<lambda>k. [])\<rparr>"

section \<open>Operations\<close>

definition watcher_Parse :: "json option \<Rightarrow> watcher_Config result" where
  "watcher_Parse properties =
     (case MarshalJSON properties of
        Ok props \<Rightarrow> decode_struct Config_member props zero_Config
      | Err e \<Rightarrow> Err e
      | Panic \<Rightarrow> Panic)"

definition watcher_Init ::
    "json option \<Rightarrow> (Event, 'o, 'w) EventHandler \<Rightarrow> ('o, 'w) K8sResourceWatcher \<Rightarrow> ('o, 'w) K8sResourceWatcher result" where
  "watcher_Init properties eh w =
     (case watcher_Parse properties of
        Err e \<Rightarrow> Err e
      | Panic \<Rightarrow> Panic
      | Ok ctrlConf \<Rightarrow>
          let key = Config_Key ctrlConf
          in case (case map_of (configs w) key of
                     Some orig \<Rightarrow> Config_Merge orig ctrlConf
                   | None \<Rightarrow> Ok ctrlConf) of
               Err e \<Rightarrow> Err e
             | Panic \<Rightarrow> Panic
             | Ok conf \<Rightarrow>
                 Ok (w\<lparr>configs := AList.update key conf (configs w),
                       w_eventHandlers := (w_eventHandlers w)(key := w_eventHandlers w key @ [eh])\<rparr>))"

text \<open>Clients for a cluster; the REST configuration made from the secret of a joined cluster.\<close>

datatype MultiClustersGetter = ClusterGatewayGetter | ClusterGatewaySecretGetter

definition NewMultiClustersGetter :: "string option \<Rightarrow> string \<Rightarrow> MultiClustersGetter result" where
  "NewMultiClustersGetter client_err t =
     (case client_err of
        Some e \<Rightarrow> Err e
      | None \<Rightarrow>
          if t = TypeClusterGateway then Ok ClusterGatewayGetter
          else if t = TypeClusterGatewaySecret then Ok ClusterGatewaySecretGetter
          else Err (''unknown multi-cluster getter type '' @ t))"

record rest_Config =
  rc_Host :: string
  rc_KeyData :: string
  rc_CertData :: string
  rc_CAData :: string
  rc_Insecure :: bool

text \<open>\<open>get\<close> returns the data of a secret of the namespace \<open>vela-system\<close>.\<close>

definition getRestConfigFromSecret :: "(string \<Rightarrow> (string \<rightharpoonup> string) result) \<Rightarrow> string \<Rightarrow> rest_Config result" where
  "getRestConfigFromSecret get clus =
     (case get clus of
        Err e \<Rightarrow> Err e
      | Panic \<Rightarrow> Panic
      | Ok secret \<Rightarrow>
          let field = (\<lambda>k. case secret k of None \<Rightarrow> '''' | Some v \<Rightarrow> v);
              conf = \<lparr>rc_Host = field clusterEndpoint, rc_KeyData = field clusterCertKey,
                      rc_CertData = field clusterCertData, rc_CAData = '''', rc_Insecure = False\<rparr>
          in case secret clusterCAData of
               Some ca \<Rightarrow> Ok (conf\<lparr>rc_CAData := ca\<rparr>)
             | None \<Rightarrow> Ok (conf\<lparr>rc_Insecure := True\<rparr>))"

text \<open>The library's constructors of a dynamic client, an HTTP client and a mapper.\<close>

record ('d, 'h, 'p) rest_lib =
  dynamic_NewForConfig :: "rest_Config \<Rightarrow> 'd result"
  HTTPClientFor :: "rest_Config \<Rightarrow> 'h result"
  NewDynamicRESTMapper :: "rest_Config \<Rightarrow> 'h \<Rightarrow> 'p result"

definition getDynamicClientAndMapperFromConfig :: "('d, 'h, 'p) rest_lib \<Rightarrow> rest_Config \<Rightarrow> ('d \<times> 'p) result" where
  "getDynamicClientAndMapperFromConfig R conf =
     (case dynamic_NewForConfig R conf of
        Err e \<Rightarrow> Err e
      | Panic \<Rightarrow> Panic
      | Ok cli \<Rightarrow>
          (case HTTPClientFor R conf of
             Err e \<Rightarrow> Err e
           | Panic \<Rightarrow> Panic
           | Ok httpClient \<Rightarrow>
               (case NewDynamicRESTMapper R conf httpClient of
                  Err e \<Rightarrow> Err e
                | Panic \<Rightarrow> Panic
                | Ok mapper \<Rightarrow> Ok (cli, mapper))))"

text \<open>
  \<open>own\<close> is the configuration of the process, \<open>shared\<close> are the client and the mapper of the
  singletons.
\<close>

definition GetDynamicClientAndMapper ::
    "MultiClustersGetter \<Rightarrow> (string \<Rightarrow> (string \<rightharpoonup> string) result) \<Rightarrow> rest_Config \<Rightarrow> ('d, 'h, 'p) rest_lib \<Rightarrow>
      'd \<times> 'p \<Rightarrow> string \<Rightarrow> ('d \<times> 'p) result" where
  "GetDynamicClientAndMapper getter get own R shared clus =
     (case getter of
        ClusterGatewayGetter \<Rightarrow> Ok shared
      | ClusterGatewaySecretGetter \<Rightarrow>
          if clus = defaultCluster then getDynamicClientAndMapperFromConfig R own
          else (case getRestConfigFromSecret get clus of
                  Ok conf \<Rightarrow> getDynamicClientAndMapperFromConfig R conf | Err e \<Rightarrow> Err e | Panic \<Rightarrow> Panic))"

text \<open>
  \<open>Run\<close> starts a controller for every configuration and cluster until a client cannot be made;
  \<open>clientFor\<close> is \<open>GetDynamicClientAndMapper\<close> of the getter. The result is the error, if any, with
  the controllers that were started.
\<close>

record ('o, 'w, 'c) started =
  st_client :: 'c
  st_cluster :: string
  st_config :: watcher_Config
  st_handlers :: "(Event, 'o, 'w) EventHandler list"

fun run_clusters ::
    "(string \<Rightarrow> 'c result) \<Rightarrow> watcher_Config \<Rightarrow> (Event, 'o, 'w) EventHandler list \<Rightarrow> string list \<Rightarrow>
      string option \<times> ('o, 'w, 'c) started list" where
  "run_clusters clientFor conf hs [] = (None, [])"
| "run_clusters clientFor conf hs (clus # cs) =
     (case clientFor clus of
        Ok cli \<Rightarrow>
          (case run_clusters clientFor conf hs cs of
             (err, sts) \<Rightarrow> (err, \<lparr>st_client = cli, st_cluster = clus, st_config = conf, st_handlers = hs\<rparr> # sts))
      | Err e \<Rightarrow> (Some e, [])
      | Panic \<Rightarrow> (Some ''panic'', []))"

definition with_clusters :: "watcher_Config \<Rightarrow> watcher_Config" where
  "with_clusters config =
     (if length (Clusters config) = 0 then config\<lparr>Clusters := [defaultCluster]\<rparr> else config)"

fun run_configs ::
    "(string \<Rightarrow> 'c result) \<Rightarrow> (string \<Rightarrow> (Event, 'o, 'w) EventHandler list) \<Rightarrow> (string \<times> watcher_Config) list \<Rightarrow>
      string option \<times> ('o, 'w, 'c) started list" where
  "run_configs clientFor hs [] = (None, [])"
| "run_configs clientFor hs ((k, config) # cs) =
     (let conf = with_clusters config
      in case run_clusters clientFor conf (hs k) (Clusters conf) of
           (Some e, sts) \<Rightarrow> (Some e, sts)
         | (None, sts) \<Rightarrow> (case run_configs clientFor hs cs of (err, sts') \<Rightarrow> (err, sts @ sts')))"

definition watcher_Run ::
    "MultiClustersGetter result \<Rightarrow> (MultiClustersGetter \<Rightarrow> string \<Rightarrow> 'c result) \<Rightarrow> ('o, 'w) K8sResourceWatcher \<Rightarrow>
      string option \<times> ('o, 'w, 'c) started list" where
  "watcher_Run getter clientFor w =
     (case getter of
        Ok g \<Rightarrow> run_configs (clientFor g) (w_eventHandlers w) (configs w)
      | Err e \<Rightarrow> (Some e, [])
      | Panic \<Rightarrow> (Some ''panic'', []))"

definition watcher_Type :: string where "watcher_Type = SourceTypeResourceWatcher"
definition watcher_Singleton :: bool where "watcher_Singleton = True"

section \<open>Initialisation by many triggers\<close>

text \<open>The program initialises the one watcher for every trigger, and goes on after an error.\<close>

fun Init_all ::
    "(json option \<times> (Event, 'o, 'w) EventHandler) list \<Rightarrow> ('o, 'w) K8sResourceWatcher \<Rightarrow> ('o, 'w) K8sResourceWatcher result" where
  "Init_all [] w = Ok w"
| "Init_all ((p, eh) # ts) w =
     (case watcher_Init p eh w of
        Ok w' \<Rightarrow> Init_all ts w'
      | Err e \<Rightarrow> Init_all ts w
      | Panic \<Rightarrow> Panic)"

text \<open>The configurations and handlers that were accepted, and those with a given key.\<close>

fun accepted ::
    "(json option \<times> (Event, 'o, 'w) EventHandler) list \<Rightarrow> (watcher_Config \<times> (Event, 'o, 'w) EventHandler) list" where
  "accepted [] = []"
| "accepted ((p, eh) # ts) =
     (case watcher_Parse p of Ok c \<Rightarrow> (c, eh) # accepted ts | _ \<Rightarrow> accepted ts)"

definition with_key :: "string \<Rightarrow> (watcher_Config \<times> 'h) list \<Rightarrow> (watcher_Config \<times> 'h) list" where
  "with_key k cs = filter (\<lambda>(c, h). Config_Key c = k) cs"

text \<open>
  What the watcher knows after it has accepted \<open>cs\<close>: all handlers of a key in their order, one
  configuration with all the events, and the clusters of the first.
\<close>

definition key_inv :: "(watcher_Config \<times> 'h) list \<Rightarrow> string \<Rightarrow> 'h list \<Rightarrow> watcher_Config option \<Rightarrow> bool" where
  "key_inv cs k hs conf \<longleftrightarrow> hs = map snd cs \<and>
     (case conf of
        None \<Rightarrow> cs = []
      | Some c \<Rightarrow> cs \<noteq> [] \<and> set (Events c) = (\<Union>(c', h) \<in> set cs. set (Events c')) \<and>
          Clusters c = Clusters (fst (hd cs)) \<and>
          last k = (if map_entries (MatchingLabels c) = [] then CHR ''-'' else CHR ''}''))"

definition watcher_inv ::
    "(watcher_Config \<times> (Event, 'o, 'w) EventHandler) list \<Rightarrow> ('o, 'w) K8sResourceWatcher \<Rightarrow> bool" where
  "watcher_inv cs w \<longleftrightarrow>
     (\<forall>k. key_inv (with_key k cs) k (w_eventHandlers w k) (map_of (configs w) k))"

lemma merge_labels_nonempty:
  "merge_labels (Some m) kvs = Ok m' \<Longrightarrow> m \<noteq> [] \<Longrightarrow> map_entries m' \<noteq> []"
proof (induction kvs arbitrary: m)
  case Nil
  then show ?case by (auto simp: map_entries_def)
next
  case (Cons kv kvs)
  obtain k v where "kv = (k, v)" by fastforce
  moreover have "AList.update k v m \<noteq> []" by (cases m) auto
  ultimately show ?case using Cons by (auto split: if_splits)
qed

lemma Merge_labels:
  assumes "last (Config_Key new) = (if map_entries (MatchingLabels c) = [] then CHR ''-'' else CHR ''}'')"
  obtains m where "Config_Merge c new = Ok (c\<lparr>Events := merge_events (Events c) (Events new), MatchingLabels := m\<rparr>)"
    "map_entries m = [] \<longleftrightarrow> map_entries (MatchingLabels c) = []"
proof (cases "map_entries (MatchingLabels new)")
  case Nil
  then show thesis using that [of "MatchingLabels c"] by (simp add: Config_Merge_def)
next
  case (Cons kv kvs)
  with assms Config_Key_last [of new] have "map_entries (MatchingLabels c) \<noteq> []"
    by (auto split: if_splits)
  then obtain m where m: "MatchingLabels c = Some m" "m \<noteq> []"
    by (cases "MatchingLabels c") (auto simp: map_entries_def)
  obtain m' where "merge_labels (Some m) (map_entries (MatchingLabels new)) = Ok (Some m')"
    using merge_labels_Some by blast
  with m merge_labels_nonempty [OF this m(2)] that [of "Some m'"] show thesis
    by (auto simp: Config_Merge_def map_entries_def)
qed

lemma watcher_inv_Init:
  assumes inv: "watcher_inv cs w" and p: "watcher_Parse p = Ok c"
  obtains w' where "watcher_Init p eh w = Ok w'" "watcher_inv (cs @ [(c, eh)]) w'"
proof -
  let ?k = "Config_Key c"
  have K: "key_inv (with_key k cs) k (w_eventHandlers w k) (map_of (configs w) k)" for k
    using inv by (simp add: watcher_inv_def)
  have "\<exists>conf. watcher_Init p eh w = Ok (w\<lparr>configs := AList.update ?k conf (configs w),
        w_eventHandlers := (w_eventHandlers w)(?k := w_eventHandlers w ?k @ [eh])\<rparr>) \<and>
      key_inv (with_key ?k cs @ [(c, eh)]) ?k (w_eventHandlers w ?k @ [eh]) (Some conf)"
  proof (cases "map_of (configs w) ?k")
    case None
    with K [of ?k] Config_Key_last [of c] show ?thesis
      by (intro exI [of _ c]) (simp add: watcher_Init_def p Let_def key_inv_def)
  next
    case (Some orig)
    with K [of ?k] have "last ?k = (if map_entries (MatchingLabels orig) = [] then CHR ''-'' else CHR ''}'')"
      by (simp add: key_inv_def)
    from Merge_labels [OF this] obtain m where
      "Config_Merge orig c = Ok (orig\<lparr>Events := merge_events (Events orig) (Events c), MatchingLabels := m\<rparr>)"
      "map_entries m = [] \<longleftrightarrow> map_entries (MatchingLabels orig) = []" by blast
    with K [of ?k] Some show ?thesis
      by (intro exI [of _ "orig\<lparr>Events := merge_events (Events orig) (Events c), MatchingLabels := m\<rparr>"])
        (simp add: watcher_Init_def p Let_def key_inv_def, blast)
  qed
  then obtain conf where i: "watcher_Init p eh w = Ok (w\<lparr>configs := AList.update ?k conf (configs w),
        w_eventHandlers := (w_eventHandlers w)(?k := w_eventHandlers w ?k @ [eh])\<rparr>)"
    "key_inv (with_key ?k cs @ [(c, eh)]) ?k (w_eventHandlers w ?k @ [eh]) (Some conf)" by blast
  have "with_key k (cs @ [(c, eh)]) = (if k = ?k then with_key k cs @ [(c, eh)] else with_key k cs)" for k
    by (simp add: with_key_def)
  with K i(2) show thesis
    by (intro that [OF i(1)]) (simp add: watcher_inv_def update_conv)
qed

text \<open>Only a nil pointer makes parsing panic.\<close>

lemma decode_no_panic:
  "decode_string v s \<noteq> Panic" "decode_elems vs \<noteq> Panic" "decode_strings v \<noteq> Panic"
  "decode_entries es m \<noteq> Panic" "decode_map v m' \<noteq> Panic"
proof -
  show str: "decode_string v s \<noteq> Panic" for v s by (cases v) auto
  show el: "decode_elems vs \<noteq> Panic" for vs
    by (induction vs) (use str in \<open>auto split: result.splits\<close>)
  show "decode_strings v \<noteq> Panic" by (cases v) (use el in auto)
  show en: "decode_entries es m \<noteq> Panic" for es m
    by (induction es m rule: decode_entries.induct) (use str in \<open>auto split: result.splits\<close>)
  show "decode_map v m' \<noteq> Panic" by (cases v) (use en in \<open>auto split: result.splits\<close>)
qed

lemma parse_no_panic:
  assumes "p \<noteq> None"
  shows "watcher_Parse p \<noteq> Panic"
proof -
  have "Config_member k v c \<noteq> Panic" for k v c
    using decode_no_panic by (auto simp: Config_member_def split: result.splits)
  then have "decode_members Config_member ms c \<noteq> Panic" for ms c
    by (induction ms arbitrary: c) (auto split: result.splits)
  then have "decode_struct Config_member v zero_Config \<noteq> Panic" for v by (cases v) auto
  with assms show ?thesis by (auto simp: watcher_Parse_def)
qed

lemma Init_all_inv:
  assumes "watcher_inv cs w" and "\<forall>(p, eh) \<in> set ts. p \<noteq> None"
  shows "\<exists>w'. Init_all ts w = Ok w' \<and> watcher_inv (cs @ accepted ts) w'"
  using assms
proof (induction ts arbitrary: cs w)
  case (Cons t ts)
  obtain p eh where t: "t = (p, eh)" by fastforce
  show ?case
  proof (cases "watcher_Parse p")
    case (Ok c)
    from watcher_inv_Init [OF Cons.prems(1) this] obtain w' where
      "watcher_Init p eh w = Ok w'" "watcher_inv (cs @ [(c, eh)]) w'" by blast
    with Cons.IH [of "cs @ [(c, eh)]" w'] Cons.prems(2) Ok show ?thesis by (simp add: t)
  next
    case (Err e)
    then have "watcher_Init p eh w = Err e" by (simp add: watcher_Init_def)
    with Cons Err show ?thesis by (simp add: t)
  next
    case Panic
    with Cons.prems(2) parse_no_panic show ?thesis by (auto simp: t)
  qed
qed simp

section \<open>Properties\<close>

text \<open>
  C9. Initialisation never panics when every trigger has properties, and it loses no handler: after
  any sequence of triggers the watcher has one configuration for every key that was accepted, the
  handlers of that key are all those registered with it, in order, and the configuration listens to
  the events of all of them, on the clusters of the first.
\<close>

theorem Init_collects_triggers:
  assumes "\<forall>(p, eh) \<in> set ts. p \<noteq> None"
  shows "\<exists>w. Init_all ts watcher_New = Ok w \<and>
    (\<forall>k. w_eventHandlers w k = map snd (with_key k (accepted ts)) \<and>
      (map_of (configs w) k = None \<longleftrightarrow> with_key k (accepted ts) = []) \<and>
      (\<forall>c. map_of (configs w) k = Some c \<longrightarrow>
        set (Events c) = (\<Union>(c', h) \<in> set (with_key k (accepted ts)). set (Events c')) \<and>
        Clusters c = Clusters (fst (hd (with_key k (accepted ts))))))"
proof -
  have "watcher_inv [] watcher_New" by (simp add: watcher_inv_def key_inv_def watcher_New_def with_key_def)
  from Init_all_inv [OF this assms] obtain w where
    w: "Init_all ts watcher_New = Ok w" "watcher_inv (accepted ts) w" by auto
  show ?thesis
  proof (intro exI [of _ w] conjI w(1) allI)
    fix k
    have K: "key_inv (with_key k (accepted ts)) k (w_eventHandlers w k) (map_of (configs w) k)"
      using w(2) by (simp add: watcher_inv_def)
    then show "w_eventHandlers w k = map snd (with_key k (accepted ts))" by (simp add: key_inv_def)
    show "map_of (configs w) k = None \<longleftrightarrow> with_key k (accepted ts) = []"
      using K by (cases "map_of (configs w) k") (auto simp: key_inv_def)
    show "map_of (configs w) k = Some c \<longrightarrow>
        set (Events c) = (\<Union>(c', h) \<in> set (with_key k (accepted ts)). set (Events c')) \<and>
        Clusters c = Clusters (fst (hd (with_key k (accepted ts))))" for c
    proof
      assume "map_of (configs w) k = Some c"
      with K show "set (Events c) = (\<Union>(c', h) \<in> set (with_key k (accepted ts)). set (Events c')) \<and>
          Clusters c = Clusters (fst (hd (with_key k (accepted ts))))" by (simp add: key_inv_def)
    qed
  qed
qed

definition pods :: "(string \<times> json) list \<Rightarrow> json option" where
  "pods ms = Some (JObj ([(''apiVersion'', JStr ''v1''), (''kind'', JStr ''Pod'')] @ ms))"

definition quiet :: "(Event, nat, nat) EventHandler" where
  "quiet t e obj w = (None, w)"

definition counting :: "(Event, nat, nat) EventHandler" where
  "counting t e obj w = (None, Suc w)"

definition events_member :: "string \<Rightarrow> string \<times> json" where
  "events_member e = (''events'', JArr [JStr e])"

lemma pods_parse:
  "watcher_Parse (pods []) = Ok (zero_Config\<lparr>APIVersion := ''v1'', Kind := ''Pod''\<rparr>)"
  "watcher_Parse (pods [events_member ''update'']) =
    Ok (zero_Config\<lparr>APIVersion := ''v1'', Kind := ''Pod'', Events := [''update'']\<rparr>)"
  "watcher_Parse (pods [events_member ''delete'']) =
    Ok (zero_Config\<lparr>APIVersion := ''v1'', Kind := ''Pod'', Events := [''delete'']\<rparr>)"
  by code_simp+

lemma Config_Key_events: "Config_Key (c\<lparr>Events := es\<rparr>) = Config_Key c"
  by (simp add: Config_Key_def)

lemma pods_key: "Config_Key (zero_Config\<lparr>APIVersion := ''v1'', Kind := ''Pod''\<rparr>) = ''v1-Pod--''"
  by (simp add: Config_Key_def zero_Config_def map_entries_def)

theorem Init_collects_triggers_witness:
  "\<exists>w. Init_all [(pods [], quiet), (pods [events_member ''update''], counting)] watcher_New = Ok w \<and>
    w_eventHandlers w ''v1-Pod--'' = [quiet, counting]"
proof -
  let ?ts = "[(pods [], quiet), (pods [events_member ''update''], counting)]"
  have "map snd (with_key ''v1-Pod--'' (accepted ?ts)) = [quiet, counting]"
    by (simp add: pods_parse with_key_def pods_key Config_Key_events)
  moreover have "\<forall>(p, eh) \<in> set ?ts. p \<noteq> None" by (simp add: pods_def)
  from Init_collects_triggers [OF this] obtain w where "Init_all ?ts watcher_New = Ok w"
    "w_eventHandlers w ''v1-Pod--'' = map snd (with_key ''v1-Pod--'' (accepted ?ts))" by blast
  ultimately show ?thesis by simp
qed

text \<open>The controller that the watcher sets up for pods after the given triggers.\<close>

definition pod_controller ::
    "(json option \<times> (Event, nat, nat) EventHandler) list \<Rightarrow> (nat, unit, nat) Controller option" where
  "pod_controller ts =
     (case Init_all ts watcher_New of
        Ok w \<Rightarrow>
          (case map_of (configs w) ''v1-Pod--'' of
             Some c \<Rightarrow> map_option snd (Setup Some (\<lambda>gv k. Some k) (\<lambda>ls. '''')
               \<lparr>data = \<lparr>ie_Event = \<lparr>ev_Type = '''', ev_Cluster = ''''\<rparr>, EventObj = APIObject 0\<rparr>,
                readyAt = 0, index = 0\<rparr> () ''local'' c (w_eventHandlers w ''v1-Pod--''))
           | None \<Rightarrow> None)
      | _ \<Rightarrow> None)"

definition pod_deleted :: "nat InformerEvent" where
  "pod_deleted = \<lparr>ie_Event = \<lparr>ev_Type = EventTypeDelete, ev_Cluster = ''local''\<rparr>, EventObj = APIObject 1\<rparr>"

lemmas watcher_eval = pod_controller_def watcher_Init_def pods_parse pods_key Config_Key_events watcher_New_def
  Config_Merge_def Setup_def newResourceController_def processItem_def pod_deleted_def
  callEventHandler_def counting_def quiet_def EventTypeDelete_def EventTypeCreate_def Let_def


end
