(* ===== verification/Cronjob.thy ===== *)
theory Cronjob
  imports Api_Types
begin

text \<open>
  The cron source (\<open>pkg/source/builtin/cronjob\<close>): its configuration and the handler it schedules.
  The parser and the runner of the cron library are parameters.
\<close>

section \<open>Configuration\<close>

record cron_Config =
  Schedule :: string
  TimeZone :: string

definition cron_String :: "cron_Config \<Rightarrow> string" where
  "cron_String c =
     (if contains (Schedule c) ''TZ'' then Schedule c
      else if TimeZone c \<noteq> '''' then ''TZ='' @ TimeZone c @ '' '' @ Schedule c
      else Schedule c)"

definition formatSchedule :: "cron_Config \<Rightarrow> string" where
  "formatSchedule c = cron_String c"

definition cron_member :: "string \<Rightarrow> json \<Rightarrow> cron_Config \<Rightarrow> cron_Config result" where
  "cron_member k v c =
     (if is_field ''schedule'' k then
        (case decode_string v (Schedule c) of Ok s \<Rightarrow> Ok (c\<lparr>Schedule := s\<rparr>) | Err e \<Rightarrow> Err e | Panic \<Rightarrow> Panic)
      else if is_field ''timeZone'' k then
        (case decode_string v (TimeZone c) of Ok s \<Rightarrow> Ok (c\<lparr>TimeZone := s\<rparr>) | Err e \<Rightarrow> Err e | Panic \<Rightarrow> Panic)
      else Ok c)"

section \<open>The source\<close>

definition cronJobType :: string where "cronJobType = ''cronjob''"

record cron_Event =
  ce_Config :: cron_Config
  TimeFired :: time

text \<open>The runner holds the schedules with the handlers to call; it is nil before \<open>Init\<close>.\<close>

record ('s, 'w) CronJob =
  cj_config :: cron_Config
  cronRunner :: "('s \<times> (cron_Event, cron_Event, 'w) EventHandler) list option"

definition cron_New :: "('s, 'w) CronJob" where
  "cron_New = \<lparr>cj_config = \<lparr>Schedule = '''', TimeZone = ''''\<rparr>, cronRunner = None\<rparr>"

definition cron_Init ::
    "(string \<Rightarrow> string + 's) \<Rightarrow> json option \<Rightarrow> (cron_Event, cron_Event, 'w) EventHandler \<Rightarrow>
      ('s, 'w) CronJob \<Rightarrow> ('s, 'w) CronJob result" where
  "cron_Init ParseStandard props eh c =
     (case MarshalJSON props of
        Err e \<Rightarrow> Err e
      | Panic \<Rightarrow> Panic
      | Ok b \<Rightarrow>
          (case decode_struct cron_member b (cj_config c) of
             Err e \<Rightarrow> Err e
           | Panic \<Rightarrow> Panic
           | Ok conf \<Rightarrow>
               (case ParseStandard (formatSchedule conf) of
                  Inl e \<Rightarrow> Err e
                | Inr sched \<Rightarrow> Ok (c\<lparr>cj_config := conf, cronRunner := Some [(sched, eh)]\<rparr>))))"

text \<open>\<open>Run\<close> starts the runner in the background; it is stopped when the context is cancelled.\<close>

definition cron_Run :: "('s, 'w) CronJob \<Rightarrow> ('s \<times> (cron_Event, cron_Event, 'w) EventHandler) list option" where
  "cron_Run c = cronRunner c"

text \<open>What the scheduled function does when its time has come.\<close>

definition cron_fire :: "time \<Rightarrow> ('s, 'w) CronJob \<Rightarrow> (cron_Event, cron_Event, 'w) EventHandler \<Rightarrow> 'w \<Rightarrow> 'w" where
  "cron_fire now c eh w =
     (let e = \<lparr>ce_Config = cj_config c, TimeFired = now\<rparr> in snd (eh cronJobType e e w))"

definition cron_Singleton :: bool where "cron_Singleton = False"

end
