(* ===== verification/Source_Registry.thy ===== *)
theory Source_Registry
  imports Resource_Watcher Cronjob
begin

text \<open>
  Sources and their registry (\<open>pkg/source/types/types.go\<close>, \<open>pkg/source/registry\<close>). The two builtin
  sources are the resource watcher and the cron job; an event handler takes the events of both.
\<close>

datatype ('o, 's, 'w) src =
    WatcherSource "('o, 'w) K8sResourceWatcher"
  | CronSource "('s, 'w) CronJob"

type_synonym ('o, 'w) any_handler = "(Event + cron_Event, 'o + cron_Event, 'w) EventHandler"

fun source_Type :: "('o, 's, 'w) src \<Rightarrow> string" where
  "source_Type (WatcherSource w) = watcher_Type"
| "source_Type (CronSource c) = cronJobType"

fun source_Singleton :: "('o, 's, 'w) src \<Rightarrow> bool" where
  "source_Singleton (WatcherSource w) = watcher_Singleton"
| "source_Singleton (CronSource c) = cron_Singleton"

fun source_New :: "('o, 's, 'w) src \<Rightarrow> ('o, 's, 'w) src" where
  "source_New (WatcherSource w) = WatcherSource watcher_New"
| "source_New (CronSource c) = CronSource cron_New"

fun source_Init ::
    "(string \<Rightarrow> string + 's) \<Rightarrow> json option \<Rightarrow> ('o, 'w) any_handler \<Rightarrow> ('o, 's, 'w) src \<Rightarrow> ('o, 's, 'w) src result" where
  "source_Init ParseStandard props eh (WatcherSource w) =
     (case watcher_Init props (\<lambda>t e d. eh t (Inl e) (Inl d)) w of
        Ok w' \<Rightarrow> Ok (WatcherSource w') | Err e \<Rightarrow> Err e | Panic \<Rightarrow> Panic)"
| "source_Init ParseStandard props eh (CronSource c) =
     (case cron_Init ParseStandard props (\<lambda>t e d. eh t (Inr e) (Inr d)) c of
        Ok c' \<Rightarrow> Ok (CronSource c') | Err e \<Rightarrow> Err e | Panic \<Rightarrow> Panic)"

text \<open>
  What runs after \<open>Run\<close>: the controllers of a watcher, or the runner of a cron job, with the error if
  any. \<open>getter\<close> and \<open>clientFor\<close> are those of the watcher.
\<close>

datatype ('o, 's, 'w, 'c) running =
    Controllers "('o, 'w, 'c) started list"
  | CronRunner "('s \<times> (cron_Event, cron_Event, 'w) EventHandler) list option"

fun source_Run ::
    "MultiClustersGetter result \<Rightarrow> (MultiClustersGetter \<Rightarrow> string \<Rightarrow> 'c result) \<Rightarrow> ('o, 's, 'w) src \<Rightarrow>
      string option \<times> ('o, 's, 'w, 'c) running" where
  "source_Run getter clientFor (WatcherSource w) =
     (case watcher_Run getter clientFor w of (err, sts) \<Rightarrow> (err, Controllers sts))"
| "source_Run getter clientFor (CronSource c) = (None, CronRunner (cron_Run c))"

section \<open>Registry\<close>

type_synonym ('o, 's, 'w) Registry = "string \<rightharpoonup> ('o, 's, 'w) src"

definition Registry_New :: "('o, 's, 'w) Registry" where
  "Registry_New = Map.empty"

definition Register :: "string \<Rightarrow> ('o, 's, 'w) src \<Rightarrow> ('o, 's, 'w) Registry \<Rightarrow> ('o, 's, 'w) Registry" where
  "Register t initial r = r(t \<mapsto> initial)"

definition Registry_Get :: "string \<Rightarrow> ('o, 's, 'w) Registry \<Rightarrow> ('o, 's, 'w) src option" where
  "Registry_Get t r = r t"

definition registerFromInstance :: "('o, 's, 'w) src \<Rightarrow> ('o, 's, 'w) Registry \<Rightarrow> ('o, 's, 'w) Registry" where
  "registerFromInstance ins reg = Register (source_Type ins) ins reg"

definition RegisterBuiltinSources :: "('o, 's, 'w) Registry \<Rightarrow> ('o, 's, 'w) Registry" where
  "RegisterBuiltinSources reg =
     registerFromInstance (CronSource cron_New) (registerFromInstance (WatcherSource watcher_New) reg)"

definition NewWithBuiltinSources :: "('o, 's, 'w) Registry" where
  "NewWithBuiltinSources = RegisterBuiltinSources Registry_New"

lemma builtin_sources:
  "Registry_Get t NewWithBuiltinSources =
     (if t = ''cronjob'' then Some (CronSource cron_New)
      else if t = ''resource-watcher'' then Some (WatcherSource watcher_New) else None)"
  by (simp add: Registry_Get_def NewWithBuiltinSources_def RegisterBuiltinSources_def
      registerFromInstance_def Register_def Registry_New_def watcher_Type_def cronJobType_def
      SourceTypeResourceWatcher_def)

end
