(* ===== verification/Config_Parser.thy ===== *)
theory Config_Parser
  imports Api_Types Go_Json_Text
begin

text \<open>
  Loading the configuration (\<open>pkg/config/parser.go\<close>, \<open>config.go\<close>). The file system, the
  libraries of CUE and YAML and the template loader are parameters.
\<close>

record kt_Config =
  Triggers :: "TriggerMeta list"

datatype config_error = UnsupportedExtension | ConfigError string

section \<open>Decoding\<close>

text \<open>
  What \<open>json.Unmarshal\<close> does with the members of the structs. A pointer to a raw value becomes nil
  for \<open>null\<close>; the elements of a list are decoded into zero values.
\<close>

fun decode_raw :: "json \<Rightarrow> json option" where
  "decode_raw JNull = None"
| "decode_raw v = Some v"

definition source_member :: "string \<Rightarrow> json \<Rightarrow> Source \<Rightarrow> Source result" where
  "source_member k v s =
     (if is_field ''type'' k then
        (case decode_string v (src_Type s) of Ok t \<Rightarrow> Ok (s\<lparr>src_Type := t\<rparr>) | Err e \<Rightarrow> Err e | Panic \<Rightarrow> Panic)
      else if is_field ''properties'' k then Ok (s\<lparr>src_Properties := decode_raw v\<rparr>)
      else Ok s)"

definition action_member :: "string \<Rightarrow> json \<Rightarrow> ActionMeta \<Rightarrow> ActionMeta result" where
  "action_member k v a =
     (if is_field ''type'' k then
        (case decode_string v (am_Type a) of Ok t \<Rightarrow> Ok (a\<lparr>am_Type := t\<rparr>) | Err e \<Rightarrow> Err e | Panic \<Rightarrow> Panic)
      else if is_field ''properties'' k then Ok (a\<lparr>am_Properties := decode_raw v\<rparr>)
      else Ok a)"

definition trigger_member :: "string \<Rightarrow> json \<Rightarrow> TriggerMeta \<Rightarrow> TriggerMeta result" where
  "trigger_member k v t =
     (if is_field ''source'' k then
        (case decode_struct source_member v (tm_Source t) of
           Ok s \<Rightarrow> Ok (t\<lparr>tm_Source := s\<rparr>) | Err e \<Rightarrow> Err e | Panic \<Rightarrow> Panic)
      else if is_field ''filter'' k then
        (case decode_string v (tm_Filter t) of Ok f \<Rightarrow> Ok (t\<lparr>tm_Filter := f\<rparr>) | Err e \<Rightarrow> Err e | Panic \<Rightarrow> Panic)
      else if is_field ''action'' k then
        (case decode_struct action_member v (tm_Action t) of
           Ok a \<Rightarrow> Ok (t\<lparr>tm_Action := a\<rparr>) | Err e \<Rightarrow> Err e | Panic \<Rightarrow> Panic)
      else Ok t)"

definition zero_TriggerMeta :: TriggerMeta where
  "zero_TriggerMeta = \<lparr>tm_Source = \<lparr>src_Type = '''', src_Properties = None\<rparr>, tm_Filter = '''',
     tm_Action = \<lparr>am_Type = '''', am_Properties = None\<rparr>\<rparr>"

fun decode_triggers :: "json list \<Rightarrow> TriggerMeta list result" where
  "decode_triggers [] = Ok []"
| "decode_triggers (v # vs) =
     (case decode_struct trigger_member v zero_TriggerMeta of
        Ok t \<Rightarrow> (case decode_triggers vs of Ok ts \<Rightarrow> Ok (t # ts) | Err e \<Rightarrow> Err e | Panic \<Rightarrow> Panic)
      | Err e \<Rightarrow> Err e | Panic \<Rightarrow> Panic)"

definition config_member :: "string \<Rightarrow> json \<Rightarrow> kt_Config \<Rightarrow> kt_Config result" where
  "config_member k v c =
     (if is_field ''triggers'' k then
        (case v of
           JArr vs \<Rightarrow> (case decode_triggers vs of Ok ts \<Rightarrow> Ok (c\<lparr>Triggers := ts\<rparr>) | Err e \<Rightarrow> Err e | Panic \<Rightarrow> Panic)
         | JNull \<Rightarrow> Ok (c\<lparr>Triggers := []\<rparr>)
         | _ \<Rightarrow> Err ''json: cannot unmarshal value into Go struct field Config.triggers'')
      else Ok c)"

definition config_decode :: "json \<Rightarrow> string + kt_Config" where
  "config_decode v =
     (case decode_struct config_member v \<lparr>Triggers = []\<rparr> of
        Ok c \<Rightarrow> Inr c | Err e \<Rightarrow> Inl e | Panic \<Rightarrow> Inl ''panic'')"

definition config_Unmarshal :: "string \<Rightarrow> string + kt_Config" where
  "config_Unmarshal bytes = (case parse_json bytes of Inl e \<Rightarrow> Inl e | Inr v \<Rightarrow> config_decode v)"

text \<open>The three formats: the libraries of CUE and YAML produce the text of a JSON value.\<close>

record formats =
  cue_to_json :: "string \<Rightarrow> string + string"
  yaml_to_json :: "string \<Rightarrow> string + string"

definition cueParser :: "formats \<Rightarrow> string \<Rightarrow> string + kt_Config" where
  "cueParser d bytes = (case cue_to_json d bytes of Inl e \<Rightarrow> Inl e | Inr jsonByte \<Rightarrow> config_Unmarshal jsonByte)"

definition yamlParser :: "formats \<Rightarrow> string \<Rightarrow> string + kt_Config" where
  "yamlParser d bytes = (case yaml_to_json d bytes of Inl e \<Rightarrow> Inl e | Inr jsonByte \<Rightarrow> config_Unmarshal jsonByte)"

definition jsonParser :: "string \<Rightarrow> string + kt_Config" where
  "jsonParser bytes = config_Unmarshal bytes"

definition parsers :: "formats \<Rightarrow> string \<rightharpoonup> (string \<Rightarrow> string + kt_Config)" where
  "parsers d ext =
     (if ext = ''.cue'' then Some (cueParser d)
      else if ext = ''.yaml'' then Some (yamlParser d)
      else if ext = ''.yml'' then Some (yamlParser d)
      else if ext = ''.json'' then Some jsonParser
      else None)"

section \<open>Files\<close>

record file_system =
  fs_isDir :: "string \<Rightarrow> string + bool"
  fs_readDir :: "string \<Rightarrow> string + (string \<times> bool) list"
  fs_readFile :: "string \<Rightarrow> string + string"

definition findFilesInDir :: "file_system \<Rightarrow> string \<Rightarrow> string + string list" where
  "findFilesInDir fs dir =
     (case fs_readDir fs dir of
        Inl e \<Rightarrow> Inl e
      | Inr entries \<Rightarrow> Inr (map (\<lambda>(name, isdir). path_join dir name) (filter (\<lambda>(name, isdir). \<not> isdir) entries)))"

definition parseFromFile :: "file_system \<Rightarrow> formats \<Rightarrow> string \<Rightarrow> config_error + kt_Config" where
  "parseFromFile fs d path =
     (case parsers d (file_ext path) of
        None \<Rightarrow> Inl UnsupportedExtension
      | Some parser \<Rightarrow>
          (case fs_readFile fs path of
             Inl e \<Rightarrow> Inl (ConfigError e)
           | Inr bytes \<Rightarrow> (case parser bytes of Inl e \<Rightarrow> Inl (ConfigError e) | Inr c \<Rightarrow> Inr c)))"

text \<open>The loop over the files of a directory: files of other types are skipped.\<close>

fun load_files :: "file_system \<Rightarrow> formats \<Rightarrow> string list \<Rightarrow> kt_Config \<Rightarrow> config_error + kt_Config" where
  "load_files fs d [] c = Inr c"
| "load_files fs d (f # files) c =
     (case parseFromFile fs d f of
        Inl UnsupportedExtension \<Rightarrow> load_files fs d files c
      | Inl (ConfigError e) \<Rightarrow> Inl (ConfigError e)
      | Inr subConfig \<Rightarrow> load_files fs d files (c\<lparr>Triggers := Triggers c @ Triggers subConfig\<rparr>))"

definition NewFromFileOrDir :: "file_system \<Rightarrow> formats \<Rightarrow> string \<Rightarrow> config_error + kt_Config" where
  "NewFromFileOrDir fs d path =
     (case fs_isDir fs path of
        Inl e \<Rightarrow> Inl (ConfigError e)
      | Inr True \<Rightarrow>
          (case findFilesInDir fs path of
             Inl e \<Rightarrow> Inl (ConfigError e)
           | Inr files \<Rightarrow> load_files fs d files \<lparr>Triggers = []\<rparr>)
      | Inr False \<Rightarrow> parseFromFile fs d path)"

text \<open>\<open>known\<close> says whether a source type is registered, \<open>load\<close> loads the template of an action.\<close>

fun validate_triggers :: "(string \<Rightarrow> bool) \<Rightarrow> (string \<Rightarrow> string + string) \<Rightarrow> TriggerMeta list \<Rightarrow> string option" where
  "validate_triggers known load [] = None"
| "validate_triggers known load (w # ws) =
     (if \<not> known (src_Type (tm_Source w)) then Some (''no such source found: '' @ src_Type (tm_Source w))
      else case load (am_Type (tm_Action w)) of
             Inl e \<Rightarrow> Some (''no such action found: '' @ am_Type (tm_Action w) @ '': '' @ e)
           | Inr t \<Rightarrow> validate_triggers known load ws)"

definition Config_Validate :: "(string \<Rightarrow> bool) \<Rightarrow> (string \<Rightarrow> string + string) \<Rightarrow> kt_Config \<Rightarrow> string option" where
  "Config_Validate known load c =
     (if length (Triggers c) = 0 then Some ''no triggers found'' else validate_triggers known load (Triggers c))"

lemma validate_triggers_iff:
  "validate_triggers known load ws = None \<longleftrightarrow>
    (\<forall>w \<in> set ws. known (src_Type (tm_Source w)) \<and> (\<exists>t. load (am_Type (tm_Action w)) = Inr t))"
  by (induction ws) (auto split: sum.splits)

end
