(* ===== verification/Event_Filter.thy ===== *)
theory Event_Filter
  imports Go_Strings
begin

text \<open>
  Filters (\<open>pkg/filter/filter.go\<close>): a filter is a CUE expression that is evaluated on the context of
  an event. The CUE parser, formatter and evaluator are parameters; a call that may fail returns
  \<open>Inl\<close> of its error.
\<close>

record ('f, 'd, 'v, 'c) cue_api =
  ParseFile :: "string \<Rightarrow> string + 'f"
  fixFile :: "'f \<Rightarrow> 'f"
  importsNil :: "'f \<Rightarrow> bool"
  Decls :: "'f \<Rightarrow> 'd list"
  isImportDecl :: "'d \<Rightarrow> bool"
  formatNode :: "'d list \<Rightarrow> string + string"
  CompileString :: "string \<Rightarrow> 'c \<Rightarrow> string + 'v"
  valErr :: "'v \<Rightarrow> string option"
  LookupPath :: "'v \<Rightarrow> string \<Rightarrow> 'v"
  Exists :: "'v \<Rightarrow> bool"
  Bool :: "'v \<Rightarrow> string + bool"

definition encodeDeclsToString :: "('f, 'd, 'v, 'c) cue_api \<Rightarrow> 'd list \<Rightarrow> string + string" where
  "encodeDeclsToString cue decls =
     (case formatNode cue decls of
        Inl e \<Rightarrow> Inl (''failed to encode cue: '' @ e)
      | Inr bs \<Rightarrow> Inr (trim_space bs))"

definition newline :: string where "newline = [CHR 0x0A]"

definition filterTemplate :: "string \<Rightarrow> string \<Rightarrow> string" where
  "filterTemplate imports content =
     newline @ imports @ newline @ ''filter: {'' @ newline @ [CHR 0x09] @ content @ newline @ ''}'' @ newline"

definition BuildFilterTemplate :: "('f, 'd, 'v, 'c) cue_api \<Rightarrow> string \<Rightarrow> string + string" where
  "BuildFilterTemplate cue filt =
     (case ParseFile cue filt of
        Inl e \<Rightarrow> Inl e
      | Inr f \<Rightarrow>
          let n = fixFile cue f
          in if importsNil cue n then Inr (''filter: '' @ filt)
             else case encodeDeclsToString cue (filter (isImportDecl cue) (Decls cue n)) of
                    Inl e \<Rightarrow> Inl e
                  | Inr importString \<Rightarrow>
                      (case encodeDeclsToString cue (filter (\<lambda>d. \<not> isImportDecl cue d) (Decls cue n)) of
                         Inl e \<Rightarrow> Inl e
                       | Inr contentString \<Rightarrow> Inr (filterTemplate importString contentString)))"

text \<open>A result that is no boolean lets the event pass.\<close>

definition ApplyFilter :: "('f, 'd, 'v, 'c) cue_api \<Rightarrow> 'c \<Rightarrow> string \<Rightarrow> bool \<times> string option" where
  "ApplyFilter cue contextData filt =
     (case BuildFilterTemplate cue filt of
        Inl e \<Rightarrow> (False, Some e)
      | Inr tmpl \<Rightarrow>
          (case CompileString cue tmpl contextData of
             Inl e \<Rightarrow> (False, Some e)
           | Inr filterVal \<Rightarrow>
               (case valErr cue filterVal of
                  Some e \<Rightarrow> (False, Some e)
                | None \<Rightarrow>
                    let nested = LookupPath cue filterVal ''filter.filter'';
                        res = (if Exists cue nested then nested else LookupPath cue filterVal ''filter'')
                    in case valErr cue res of
                         Some e \<Rightarrow> (False, Some e)
                       | None \<Rightarrow>
                           (case Bool cue res of Inl e \<Rightarrow> (True, None) | Inr b \<Rightarrow> (b, None)))))"

end
