(* ===== verification/Action_Job.thy ===== *)
theory Action_Job
  imports Api_Types Executor Event_Filter "HOL-Library.Word"
begin

text \<open>
  The jobs that triggers create (\<open>pkg/action/action.go\<close>). The executor's queue holds pointers to
  them; a pointer is an index into the list of all jobs made so far, so that two jobs with the same
  contents are still two jobs. The template loader, the hash of \<open>hashstructure\<close> and the CUE
  evaluator are parameters.
\<close>

record 'c actionJob =
  sourceType :: string
  jid :: string
  jcontext :: 'c
  properties :: "json option"
  jtemplate :: string

definition computeHash :: "('m \<Rightarrow> string + 64 word) \<Rightarrow> 'm \<Rightarrow> string + string" where
  "computeHash hash obj =
     (case hash obj of Inl e \<Rightarrow> Inl e | Inr specHash \<Rightarrow> Inr (hex_digits (unat specHash)))"

text \<open>\<open>load\<close> finds a trigger action by its type and returns its compiled template.\<close>

definition action_New ::
    "(string \<Rightarrow> string + string) \<Rightarrow> (ActionMeta \<Rightarrow> string + 64 word) \<Rightarrow> ActionMeta \<Rightarrow> 'c \<Rightarrow> string + 'c actionJob" where
  "action_New load hash meta contextData =
     (case load (am_Type meta) of
        Inl e \<Rightarrow> Inl e
      | Inr tmpl \<Rightarrow>
          (case computeHash hash meta of
             Inl e \<Rightarrow> Inl e
           | Inr i \<Rightarrow>
               Inr \<lparr>sourceType = am_Type meta, jid = i, jcontext = contextData,
                    properties = am_Properties meta, jtemplate = tmpl\<rparr>))"

definition action_Type :: "'c actionJob \<Rightarrow> string" where "action_Type j = sourceType j"
definition action_ID :: "'c actionJob \<Rightarrow> string" where "action_ID j = jid j"
definition action_AllowConcurrency :: "'c actionJob \<Rightarrow> bool" where "action_AllowConcurrency j = False"

text \<open>\<open>compile\<close> evaluates a template with the values for \<open>parameter\<close> and \<open>context\<close>.\<close>

definition action_Run ::
    "(string \<Rightarrow> json option \<Rightarrow> 'c \<Rightarrow> string + 'v) \<Rightarrow> ('v \<Rightarrow> string option) \<Rightarrow> 'c actionJob \<Rightarrow> string option" where
  "action_Run compile verr j =
     (case compile (jtemplate j) (properties j) (jcontext j) of
        Inl e \<Rightarrow> Some e
      | Inr v \<Rightarrow> (case verr v of Some e \<Rightarrow> Some e | None \<Rightarrow> None))"

text \<open>The jobs as the executor sees them, through their pointers.\<close>

definition job_methods :: "'c actionJob list \<Rightarrow> nat Job" where
  "job_methods js = \<lparr>isNil = \<lambda>p. length js \<le> p, ID = \<lambda>p. action_ID (js ! p),
     AllowConcurrency = \<lambda>p. action_AllowConcurrency (js ! p)\<rparr>"

end
