(* ===== verification/Event_Handler.thy ===== *)
theory Event_Handler
  imports Action_Job
begin

text \<open>
  Event handlers (\<open>pkg/eventhandler/event_handler.go\<close>): the handler of a trigger filters the event,
  makes a job of it and adds the job to the executor. The world a handler acts on is the executor
  with all jobs made so far.
\<close>

record ('q, 'c) job_world =
  exe :: "'q Executor"
  jobs :: "'c actionJob list"

record ('e, 'd) event_context =
  ctx_sourceType :: string
  ctx_event :: 'e
  ctx_data :: 'd
  ctx_timestamp :: string

definition handler_New :: "('e, 'd, 'w) EventHandler" where
  "handler_New st e d w = (None, w)"

definition NewFromConfig ::
    "('f, 'x, 'v, ('e, 'd) event_context) cue_api \<Rightarrow> (string \<Rightarrow> string + string) \<Rightarrow>
      (ActionMeta \<Rightarrow> string + 64 word) \<Rightarrow> (nat, 'q) jobQueue \<Rightarrow> string \<Rightarrow> ActionMeta \<Rightarrow> string \<Rightarrow>
      ('e, 'd, ('q, ('e, 'd) event_context) job_world) EventHandler" where
  "NewFromConfig cue load hash Q now actionMeta filterMeta st event d w =
     (let c = \<lparr>ctx_sourceType = st, ctx_event = event, ctx_data = d, ctx_timestamp = now\<rparr>
      in case ApplyFilter cue c filterMeta of
           (kept, err) \<Rightarrow>
             if \<not> kept then (Some ''event is filtered out'', w)
             else case action_New load hash actionMeta c of
                    Inl e \<Rightarrow> (Some e, w)
                  | Inr newJob \<Rightarrow>
                      let js = jobs w @ [newJob]
                      in case AddJob Q (job_methods js) (length (jobs w)) (exe w) of
                           (AddJobOk, e') \<Rightarrow> (None, w\<lparr>exe := e', jobs := js\<rparr>)
                         | (AddJobErr err, e') \<Rightarrow> (Some ''queue size full'', w\<lparr>exe := e', jobs := js\<rparr>)
                         | (AddJobPanic, e') \<Rightarrow> (Some ''panic'', w\<lparr>exe := e', jobs := js\<rparr>))"

definition AddHandlerBefore ::
    "('e, 'd, 'w) EventHandler \<Rightarrow> ('e, 'd, 'w) EventHandler \<Rightarrow> ('e, 'd, 'w) EventHandler" where
  "AddHandlerBefore e eh st event d w =
     (case eh st event d w of (Some err, w') \<Rightarrow> (Some err, w') | (None, w') \<Rightarrow> e st event d w')"

definition AddHandlerAfter ::
    "('e, 'd, 'w) EventHandler \<Rightarrow> ('e, 'd, 'w) EventHandler \<Rightarrow> ('e, 'd, 'w) EventHandler" where
  "AddHandlerAfter e eh st event d w =
     (case e st event d w of (Some err, w') \<Rightarrow> (Some err, w') | (None, w') \<Rightarrow> eh st event d w')"

section \<open>Properties\<close>


end
