(* ===== verification/Command.thy ===== *)
theory Command
  imports Source_Registry Config_Parser Event_Handler
begin

text \<open>
  The command (\<open>pkg/cmd/options.go\<close>, \<open>cmd.go\<close>): options, flags, and \<open>run\<close>, which composes the
  configuration, the sources, the event handlers and the executor. The file system, the API client,
  the cron parser and the log level parser are parameters.
\<close>

section \<open>Options\<close>

record option_ =
  LogLevel :: string
  ConfigPath :: string
  o_QueueSize :: int
  o_Workers :: int
  o_PerWorkerQPS :: int
  MaxRetry :: int
  RetryDelay :: int
  ActionRetry :: bool
  o_Timeout :: int
  RegistrySize :: int

definition newOption :: option_ where
  "newOption = \<lparr>LogLevel = '''', ConfigPath = '''', o_QueueSize = 0, o_Workers = 0, o_PerWorkerQPS = 0,
     MaxRetry = 0, RetryDelay = 0, ActionRetry = False, o_Timeout = 0, RegistrySize = 0\<rparr>"

definition validate :: "(string \<Rightarrow> string option) \<Rightarrow> option_ \<Rightarrow> string option" where
  "validate ParseLevel o' =
     (case ParseLevel (LogLevel o') of
        Some err \<Rightarrow> Some err
      | None \<Rightarrow>
          if ConfigPath o' = '''' then Some ''config not specified''
          else if o_QueueSize o' \<le> 0 then Some ''queue-size must be greater than 0''
          else if o_Workers o' \<le> 0 then Some ''workers must be greater than 0''
          else if o_PerWorkerQPS o' \<le> 0 then Some ''per-worker-qps must be greater than 0''
          else if MaxRetry o' < 0 then Some ''max-retry must be greater or equal to 0''
          else if RetryDelay o' < 0 then Some ''retry-delay must be greater or equal to 0''
          else if o_Timeout o' \<le> 0 then Some ''timeout must be greater than 0''
          else if RegistrySize o' \<le> 0 then Some ''registry-size must be greater than 0''
          else None)"

definition getExecutorConfig :: "option_ \<Rightarrow> executor_Config" where
  "getExecutorConfig o' =
     \<lparr>QueueSize = o_QueueSize o', Workers = o_Workers o', MaxJobRetries = MaxRetry o',
      BaseRetryDelay = wrap64 (second * RetryDelay o'), RetryJobAfterFailure = ActionRetry o',
      PerWorkerQPS = o_PerWorkerQPS o', Timeout = wrap64 (second * o_Timeout o')\<rparr>"

section \<open>Flags\<close>

text \<open>
  \<open>addFlags\<close> declares the flags, which stores their defaults. There is a name for a flag of
  \<open>ActionRetry\<close>, but no flag.
\<close>

definition addFlags :: "option_ \<Rightarrow> option_" where
  "addFlags o' = o'\<lparr>ConfigPath := ''config.cue'', LogLevel := ''info'', o_QueueSize := 50, o_Workers := 4,
     o_PerWorkerQPS := 2, MaxRetry := 5, RetryDelay := 2, o_Timeout := 10, RegistrySize := 100\<rparr>"

text \<open>The values given on the command line.\<close>

datatype flag =
    SetConfig string | SetLogLevel string | SetQueueSize int | SetWorkers int | SetPerWorkerQPS int
  | SetMaxRetry int | SetRetryDelay int | SetTimeout int | SetRegistrySize int

fun set_flag :: "flag \<Rightarrow> option_ \<Rightarrow> option_" where
  "set_flag (SetConfig s) o' = o'\<lparr>ConfigPath := s\<rparr>"
| "set_flag (SetLogLevel s) o' = o'\<lparr>LogLevel := s\<rparr>"
| "set_flag (SetQueueSize n) o' = o'\<lparr>o_QueueSize := n\<rparr>"
| "set_flag (SetWorkers n) o' = o'\<lparr>o_Workers := n\<rparr>"
| "set_flag (SetPerWorkerQPS n) o' = o'\<lparr>o_PerWorkerQPS := n\<rparr>"
| "set_flag (SetMaxRetry n) o' = o'\<lparr>MaxRetry := n\<rparr>"
| "set_flag (SetRetryDelay n) o' = o'\<lparr>RetryDelay := n\<rparr>"
| "set_flag (SetTimeout n) o' = o'\<lparr>o_Timeout := n\<rparr>"
| "set_flag (SetRegistrySize n) o' = o'\<lparr>RegistrySize := n\<rparr>"

text \<open>The flags that are stored in variables of the packages.\<close>

record command_vars =
  MultiClusterConfigType :: string
  var_enableLeaderElection :: bool
  leaseDuration :: duration
  renewDeadline :: duration
  retryPeriod :: duration

definition addFlags_vars :: command_vars where
  "addFlags_vars = \<lparr>MultiClusterConfigType = TypeClusterGateway, var_enableLeaderElection = False,
     leaseDuration = 15 * second, renewDeadline = 10 * second, retryPeriod = 2 * second\<rparr>"

datatype vars_flag =
    SetMultiClusterConfigType string | SetLeaderElect bool | SetLeaseDuration duration
  | SetRenewDeadline duration | SetRetryPeriod duration

fun set_vars_flag :: "vars_flag \<Rightarrow> command_vars \<Rightarrow> command_vars" where
  "set_vars_flag (SetMultiClusterConfigType t) v = v\<lparr>MultiClusterConfigType := t\<rparr>"
| "set_vars_flag (SetLeaderElect b) v = v\<lparr>var_enableLeaderElection := b\<rparr>"
| "set_vars_flag (SetLeaseDuration d) v = v\<lparr>leaseDuration := d\<rparr>"
| "set_vars_flag (SetRenewDeadline d) v = v\<lparr>renewDeadline := d\<rparr>"
| "set_vars_flag (SetRetryPeriod d) v = v\<lparr>retryPeriod := d\<rparr>"

text \<open>
  The help of the flag names two types. A watcher runs with the first one, the default; with the second
  it returns an error and starts no controller.
\<close>

lemma documented_cluster_types:
  "MultiClusterConfigType addFlags_vars = ''cluster-gateway''"
  "NewMultiClustersGetter None (MultiClusterConfigType addFlags_vars) = Ok ClusterGatewayGetter"
  "watcher_Run (NewMultiClustersGetter None (MultiClusterConfigType
      (set_vars_flag (SetMultiClusterConfigType ''cluster-gateway-kubeconfig'') addFlags_vars))) clientFor w =
    (Some ''unknown multi-cluster getter type cluster-gateway-kubeconfig'', [])"
  by (simp_all add: addFlags_vars_def NewMultiClustersGetter_def TypeClusterGateway_def TypeClusterGatewaySecret_def
      watcher_Run_def)

definition NewCommand :: "(string \<Rightarrow> string option) \<Rightarrow> option_ result" where
  "NewCommand ParseLevel =
     (let o' = addFlags newOption in case validate ParseLevel o' of Some err \<Rightarrow> Panic | None \<Rightarrow> Ok o')"

text \<open>The options \<open>run\<close> works with: the flags are parsed when the command made above is executed.\<close>

definition command_line :: "(string \<Rightarrow> string option) \<Rightarrow> flag list \<Rightarrow> option_ result" where
  "command_line ParseLevel flags =
     (case NewCommand ParseLevel of Ok o' \<Rightarrow> Ok (fold set_flag flags o') | Err e \<Rightarrow> Err e | Panic \<Rightarrow> Panic)"

section \<open>run\<close>

text \<open>The loop over the triggers; \<open>handler\<close> makes the event handler of a trigger.\<close>

fun run_triggers ::
    "(string \<Rightarrow> string + 's) \<Rightarrow> ('o, 's, 'w) Registry \<Rightarrow> (TriggerMeta \<Rightarrow> ('o, 'w) any_handler) \<Rightarrow>
      TriggerMeta list \<Rightarrow> (string \<times> ('o, 's, 'w) src) list \<Rightarrow> (string \<times> ('o, 's, 'w) src) list result" where
  "run_triggers ParseStandard reg handler [] instances = Ok instances"
| "run_triggers ParseStandard reg handler (w # ws) instances =
     (let t = src_Type (tm_Source w)
      in case Registry_Get t reg of
           None \<Rightarrow> run_triggers ParseStandard reg handler ws instances
         | Some s \<Rightarrow>
             let source = (if source_Singleton s
                           then (case map_of instances t of Some s' \<Rightarrow> s' | None \<Rightarrow> source_New s)
                           else source_New s)
             in case source_Init ParseStandard (src_Properties (tm_Source w)) (handler w) source of
                  Err e \<Rightarrow> run_triggers ParseStandard reg handler ws instances
                | Panic \<Rightarrow> Panic
                | Ok s' \<Rightarrow> run_triggers ParseStandard reg handler ws (AList.update t s' instances))"

datatype ('o, 's, 'w, 'c, 'q) run_outcome =
    RunError string
  | RunPanics
  | RunStarts "('o, 's, 'w) src list" "(string option \<times> ('o, 's, 'w, 'c) running) list" "(nat, 'q) exec_sys"

text \<open>
  \<open>run\<close> up to the point where the sources and the workers are running: the instances, what each of
  them started, and the executor with its workers. An error of a source's \<open>Run\<close> is logged, and the
  other sources are started all the same. \<open>client_err\<close> is the error of the API client.
\<close>

definition run ::
    "file_system \<Rightarrow> formats \<Rightarrow> (string \<Rightarrow> string + 's) \<Rightarrow> string option \<Rightarrow> (string \<Rightarrow> string + string) \<Rightarrow>
      (duration \<Rightarrow> duration \<Rightarrow> int \<Rightarrow> int \<Rightarrow> 'q) \<Rightarrow> (TriggerMeta \<Rightarrow> ('o, 'w) any_handler) \<Rightarrow>
      MultiClustersGetter result \<Rightarrow> (MultiClustersGetter \<Rightarrow> string \<Rightarrow> 'c result) \<Rightarrow> option_ \<Rightarrow>
      ('o, 's, 'w, 'c, 'q) run_outcome" where
  "run fs d ParseStandard client_err load mk handler getter clientFor o' =
     (case client_err of
        Some e \<Rightarrow> RunError e
      | None \<Rightarrow>
          (case NewFromFileOrDir fs d (ConfigPath o') of
             Inl e \<Rightarrow> RunError ''error when parsing config''
           | Inr conf \<Rightarrow>
               let reg = (NewWithBuiltinSources :: ('o, 's, 'w) Registry)
               in case Config_Validate (\<lambda>t. Registry_Get t reg \<noteq> None) load conf of
                    Some e \<Rightarrow> RunError ''cannot validate config''
                  | None \<Rightarrow>
                      (case executor_New mk (getExecutorConfig o') of
                         Inl e \<Rightarrow> RunError ''error when creating executor''
                       | Inr e \<Rightarrow>
                           (case run_triggers ParseStandard reg handler (Triggers conf) [] of
                              Ok instances \<Rightarrow>
                                (case RunJobs e of
                                   None \<Rightarrow> RunPanics
                                 | Some x \<Rightarrow> RunStarts (map snd instances)
                                     (map (source_Run getter clientFor \<circ> snd) instances) x)
                            | _ \<Rightarrow> RunPanics))))"

section \<open>Properties\<close>

text \<open>With valid options the executor is made unless the retry delay is zero.\<close>

lemma validated_options:
  assumes "validate ParseLevel o' = None" and "RetryDelay o' < 2 ^ 33" and "o_Timeout o' < 2 ^ 33"
  shows "(\<exists>e. executor_New mk (getExecutorConfig o') = Inr e) \<longleftrightarrow> RetryDelay o' \<noteq> 0"
proof -
  have v: "0 < o_QueueSize o'" "0 < o_Workers o'" "0 < o_PerWorkerQPS o'" "0 \<le> RetryDelay o'" "0 < o_Timeout o'"
    using assms(1) by (auto simp: validate_def split: option.splits if_splits)
  have "wrap64 (second * n) = second * n" if "0 \<le> n" "n < 2 ^ 33" for n
    using that by (intro wrap64_id) (simp add: in_int64_def min_int64_def max_int64_def second_def)
  with v assms(2,3) show ?thesis
    by (auto simp: executor_New_def getExecutorConfig_def second_def)
qed


text \<open>The cron job that a trigger makes.\<close>

definition cron_of ::
    "(string \<Rightarrow> string + 's) \<Rightarrow> (TriggerMeta \<Rightarrow> ('o, 'w) any_handler) \<Rightarrow> TriggerMeta \<Rightarrow> ('s, 'w) CronJob result" where
  "cron_of ParseStandard handler w =
     cron_Init ParseStandard (src_Properties (tm_Source w)) (\<lambda>t e d. handler w t (Inr e) (Inr d)) cron_New"

lemma run_triggers_cron:
  assumes "src_Type (tm_Source w) = ''cronjob''" and "cron_of ParseStandard handler w = Ok c"
  shows "run_triggers ParseStandard NewWithBuiltinSources handler (w # ws) instances =
    run_triggers ParseStandard NewWithBuiltinSources handler ws (AList.update ''cronjob'' (CronSource c) instances)"
  using assms by (simp add: builtin_sources cron_Singleton_def cron_of_def)

text \<open>
  C32. Of several cron triggers only the last one runs. Every trigger gets an instance of its own, as
  the interface of sources promises, but the instances are kept in a map by type, so each one
  replaces the one before, and only those in the map are started.
\<close>

theorem only_last_cronjob_runs:
  assumes "ws \<noteq> []" and "\<forall>w \<in> set ws. src_Type (tm_Source w) = ''cronjob'' \<and>
      (\<exists>c. cron_of ParseStandard handler w = Ok c)"
  shows "\<exists>c. run_triggers ParseStandard NewWithBuiltinSources handler ws [] = Ok [(''cronjob'', CronSource c)] \<and>
    cron_of ParseStandard handler (last ws) = Ok c"
proof -
  have "\<exists>c. run_triggers ParseStandard NewWithBuiltinSources handler ws inst = Ok [(''cronjob'', CronSource c)] \<and>
      cron_of ParseStandard handler (last ws) = Ok c"
    if "inst = [] \<or> (\<exists>c. inst = [(''cronjob'', CronSource c)])" for inst
    using assms that
  proof (induction ws arbitrary: inst)
    case (Cons w ws)
    then obtain c where w: "src_Type (tm_Source w) = ''cronjob''" "cron_of ParseStandard handler w = Ok c" by auto
    have u: "AList.update ''cronjob'' (CronSource c) inst = [(''cronjob'', CronSource c)]"
      using Cons.prems(3) by auto
    have step: "run_triggers ParseStandard NewWithBuiltinSources handler (w # ws) inst =
        run_triggers ParseStandard NewWithBuiltinSources handler ws [(''cronjob'', CronSource c)]"
      unfolding run_triggers_cron [OF w] u ..
    show ?case
    proof (cases "ws = []")
      case True
      then show ?thesis unfolding step using w(2) by simp
    next
      case False
      have "\<forall>w \<in> set ws. src_Type (tm_Source w) = ''cronjob'' \<and> (\<exists>c. cron_of ParseStandard handler w = Ok c)"
        using Cons.prems(2) by simp
      from Cons.IH [OF False this, of "[(''cronjob'', CronSource c)]"] show ?thesis
        unfolding step last_ConsR [OF False] by blast
    qed
  qed simp
  then show ?thesis by blast
qed

definition cron_trigger :: "string \<Rightarrow> TriggerMeta" where
  "cron_trigger s = \<lparr>tm_Source = \<lparr>src_Type = ''cronjob'', src_Properties = Some (JObj [(''schedule'', JStr s)])\<rparr>,
     tm_Filter = '''', tm_Action = \<lparr>am_Type = ''log'', am_Properties = None\<rparr>\<rparr>"

definition silent :: "TriggerMeta \<Rightarrow> (nat, nat) any_handler" where
  "silent w t e d x = (None, x)"

lemma cron_trigger_init:
  "\<exists>r. cron_of Inr silent (cron_trigger s) = Ok \<lparr>cj_config = \<lparr>Schedule = s, TimeZone = ''''\<rparr>, cronRunner = r\<rparr>"
proof -
  have "is_field ''schedule'' ''schedule''" by (simp add: is_field_def)
  then show ?thesis
    by (simp add: cron_of_def cron_trigger_def cron_Init_def cron_member_def cron_New_def)
qed

theorem only_last_cronjob_runs_witness:
  "\<exists>c. run_triggers Inr NewWithBuiltinSources silent [cron_trigger ''@hourly'', cron_trigger ''@daily''] [] =
      Ok [(''cronjob'', CronSource c)] \<and> Schedule (cj_config c) = ''@daily''"
proof -
  let ?ws = "[cron_trigger ''@hourly'', cron_trigger ''@daily'']"
  have "\<forall>w \<in> set ?ws. src_Type (tm_Source w) = ''cronjob'' \<and> (\<exists>c. cron_of Inr silent w = Ok c)"
    using cron_trigger_init by (auto simp: cron_trigger_def)
  from only_last_cronjob_runs [OF _ this] obtain c where
    c: "run_triggers Inr NewWithBuiltinSources silent ?ws [] = Ok [(''cronjob'', CronSource c)]"
    "cron_of Inr silent (cron_trigger ''@daily'') = Ok c" by (auto simp del: run_triggers.simps)
  moreover have "Schedule (cj_config c) = ''@daily''" using c(2) cron_trigger_init [of "''@daily''"] by auto
  ultimately show ?thesis by blast
qed

section \<open>What is running\<close>

lemma source_Init_type: "source_Init ParseStandard p eh s = Ok s' \<Longrightarrow> source_Type s' = source_Type s"
  by (cases s) (auto split: result.splits)

text \<open>The instances are filed under their own types, each type once, and only for types in use.\<close>

definition instances_ok :: "string set \<Rightarrow> (string \<times> ('o, 's, 'w) src) list \<Rightarrow> bool" where
  "instances_ok T inst \<longleftrightarrow> distinct (map fst inst) \<and> (\<forall>(t, s) \<in> set inst. source_Type s = t \<and> t \<in> T)"

lemma instances_ok_update:
  assumes "instances_ok T inst" and "source_Type s = t" and "t \<in> T"
  shows "instances_ok T (AList.update t s inst)"
proof -
  have "set (AList.update t s inst) \<subseteq> insert (t, s) (set inst)"
    by (induction inst) auto
  with assms show ?thesis by (auto simp: instances_ok_def distinct_update)
qed

lemma builtin_type: "Registry_Get t NewWithBuiltinSources = Some s \<Longrightarrow> source_Type s = t"
  by (auto simp: builtin_sources watcher_Type_def cronJobType_def SourceTypeResourceWatcher_def split: if_splits)

lemma source_New_type: "source_Type (source_New s) = source_Type s"
  by (cases s) auto

lemma run_triggers_types:
  assumes "run_triggers P NewWithBuiltinSources handler ws inst = Ok inst'" and "instances_ok T inst"
    and "\<forall>w \<in> set ws. src_Type (tm_Source w) \<in> T"
  shows "instances_ok T inst'"
  using assms
proof (induction ws arbitrary: inst)
  case (Cons w ws)
  let ?t = "src_Type (tm_Source w)"
  show ?case
  proof (cases "Registry_Get ?t (NewWithBuiltinSources :: ('a, 'b, 'c) Registry)")
    case None
    with Cons show ?thesis by simp
  next
    case (Some s)
    define source where "source = (if source_Singleton s
      then (case map_of inst ?t of Some s' \<Rightarrow> s' | None \<Rightarrow> source_New s) else source_New s)"
    have "source_Type source = ?t"
      using builtin_type [OF Some] Cons.prems(2)
      by (auto simp: source_def instances_ok_def source_New_type split: option.splits dest: map_of_SomeD)
    then have "instances_ok T (AList.update ?t s' inst)"
      if "source_Init P (src_Properties (tm_Source w)) (handler w) source = Ok s'" for s'
      using source_Init_type [OF that] Cons.prems(3) by (intro instances_ok_update [OF Cons.prems(2)]) auto
    with Cons Some show ?thesis by (auto simp: source_def [symmetric] Let_def split: result.splits)
  qed
qed simp


definition cron_files :: file_system where
  "cron_files = \<lparr>fs_isDir = \<lambda>p. Inr False, fs_readDir = \<lambda>p. Inl ''no directory'', fs_readFile = \<lambda>p. Inr ''cue''\<rparr>"

definition cron_formats :: formats where
  "cron_formats = \<lparr>cue_to_json = \<lambda>s. Inr (render (JObj [(''triggers'', JArr [JObj [
       (''source'', JObj [(''type'', JStr ''cronjob''), (''properties'', JObj [(''schedule'', JStr ''@daily'')])]),
       (''action'', JObj [(''type'', JStr ''log'')])]])])), yaml_to_json = \<lambda>s. Inl ''yaml''\<rparr>"

abbreviation cron_run :: "(nat, string, nat, unit, unit) run_outcome" where
  "cron_run \<equiv> run cron_files cron_formats Inr None Inr (\<lambda>a b l n. ()) silent (Ok ClusterGatewayGetter)
     (\<lambda>g c. Ok ()) (addFlags newOption)"


end
