(* ===== verification/Runner.thy ===== *)
theory Runner
  imports Command
begin

text \<open>
  The life of the process (\<open>runCli\<close>, \<open>Runner\<close> and the leader election in \<open>pkg/cmd/cmd.go\<close>) as a step
  relation over three goroutines: the command, which waits for an error or a signal; the one that
  calls \<open>run\<close>; and the elector, which calls the two callbacks. The error channel is unbuffered, so that
  sending and receiving is one step, and the process ends when the command returns. A second call of
  \<open>once.Do\<close> waits for the first one and has no effect. The elector of
  client-go is a parameter: it may report that it leads at any time until it stops.
\<close>

datatype start_pc = NotStarted | Running | SendErr string | StartDone

datatype elect_pc = NoElector | Campaigning | Leading | SendLost | ElectDone

datatype cli_pc = CliSelect | CliReturned "string option"

text \<open>\<open>starts\<close>, \<open>hasLed\<close> and \<open>runErr\<close> record what has happened.\<close>

record Runner =
  once :: bool
  starter :: start_pc
  elector :: elect_pc
  cli :: cli_pc
  starts :: nat
  hasLed :: bool
  runErr :: "string option"

definition NewRunner :: Runner where
  "NewRunner = \<lparr>once = False, starter = NotStarted, elector = NoElector, cli = CliSelect, starts = 0,
     hasLed = False, runErr = None\<rparr>"

text \<open>The call of \<open>r.start\<close>, which is \<open>run\<close>.\<close>

definition call_start :: "Runner \<Rightarrow> Runner" where
  "call_start r = r\<lparr>starter := Running, starts := Suc (starts r)\<rparr>"

text \<open>\<open>elect_err\<close> is the error of making the client or the elector.\<close>

definition startLeaderElection :: "string option \<Rightarrow> Runner \<Rightarrow> string + Runner" where
  "startLeaderElection elect_err r =
     (case elect_err of Some e \<Rightarrow> Inl e | None \<Rightarrow> Inr (r\<lparr>elector := Campaigning\<rparr>))"

definition OnStartedLeading :: "Runner \<Rightarrow> Runner" where
  "OnStartedLeading r = (if once r then r else call_start (r\<lparr>once := True\<rparr>))"

definition OnStoppedLeading :: "Runner \<Rightarrow> Runner" where
  "OnStoppedLeading r = r\<lparr>elector := SendLost\<rparr>"

definition Runner_Start :: "bool \<Rightarrow> string option \<Rightarrow> Runner \<Rightarrow> string + Runner" where
  "Runner_Start enableLeaderElection elect_err r =
     (if enableLeaderElection then startLeaderElection elect_err r else Inr (call_start r))"

inductive runner_step :: "Runner \<Rightarrow> Runner \<Rightarrow> bool" where
  leads: "cli r = CliSelect \<Longrightarrow> elector r \<in> {Campaigning, Leading} \<Longrightarrow>
    runner_step r (OnStartedLeading (r\<lparr>elector := Leading, hasLed := True\<rparr>))"
| stops_leading: "cli r = CliSelect \<Longrightarrow> elector r \<in> {Campaigning, Leading} \<Longrightarrow>
    runner_step r (OnStoppedLeading r)"
| run_returns_nil: "cli r = CliSelect \<Longrightarrow> starter r = Running \<Longrightarrow> runner_step r (r\<lparr>starter := StartDone\<rparr>)"
| run_fails: "cli r = CliSelect \<Longrightarrow> starter r = Running \<Longrightarrow>
    runner_step r (r\<lparr>starter := SendErr e, runErr := Some e\<rparr>)"
| err_received: "cli r = CliSelect \<Longrightarrow> starter r = SendErr e \<Longrightarrow>
    runner_step r (r\<lparr>starter := StartDone, cli := CliReturned (Some e)\<rparr>)"
| lost_received: "cli r = CliSelect \<Longrightarrow> elector r = SendLost \<Longrightarrow>
    runner_step r (r\<lparr>elector := ElectDone, cli := CliReturned (Some ''leader election lost'')\<rparr>)"
| interrupted: "cli r = CliSelect \<Longrightarrow> runner_step r (r\<lparr>cli := CliReturned None\<rparr>)"

abbreviation runner_steps :: "Runner \<Rightarrow> Runner \<Rightarrow> bool" where
  "runner_steps \<equiv> runner_step\<^sup>*\<^sup>*"

text \<open>\<open>le\<close> says whether leader election is enabled.\<close>

fun runner_inv :: "bool \<Rightarrow> Runner \<Rightarrow> bool" where
  "runner_inv le r \<longleftrightarrow>
     starts r = (if starter r = NotStarted then 0 else 1) \<and>
     (if le then once r = (starter r \<noteq> NotStarted) \<and> (once r \<longrightarrow> hasLed r)
      else elector r = NoElector \<and> starter r \<noteq> NotStarted) \<and>
     (\<forall>e. starter r = SendErr e \<longrightarrow> runErr r = Some e) \<and>
     (\<forall>e. cli r = CliReturned (Some e) \<longrightarrow> runErr r = Some e \<or> le \<and> e = ''leader election lost'')"

lemma runner_inv_start: "Runner_Start le elect_err NewRunner = Inr r \<Longrightarrow> runner_inv le r"
  by (auto simp: Runner_Start_def startLeaderElection_def NewRunner_def call_start_def split: if_splits option.splits)

lemma runner_inv_step: "runner_step r r' \<Longrightarrow> runner_inv le r \<Longrightarrow> runner_inv le r'"
  by (induction rule: runner_step.induct)
    (auto simp: OnStartedLeading_def OnStoppedLeading_def call_start_def split: if_splits)

lemma runner_inv_steps: "runner_steps r r' \<Longrightarrow> runner_inv le r \<Longrightarrow> runner_inv le r'"
  by (induction rule: rtranclp_induct) (auto dest: runner_inv_step simp del: runner_inv.simps)

text \<open>
  C17. However often the elector reports that it leads, \<open>run\<close> is started at most once, and with leader
  election only after the process has become the leader. When the command returns an error, it is the
  one that \<open>run\<close> returned or the loss of the leadership; and an error or a loss that waits to be
  reported can be reported, so that the process does not go on without its work.
\<close>

theorem runner_starts_once:
  assumes "Runner_Start le elect_err NewRunner = Inr r0" and "runner_steps r0 r"
  shows "starts r \<le> 1 \<and> (le \<and> starts r = 1 \<longrightarrow> hasLed r) \<and>
    (\<forall>e. cli r = CliReturned (Some e) \<longrightarrow> runErr r = Some e \<or> le \<and> e = ''leader election lost'') \<and>
    (cli r = CliSelect \<and> ((\<exists>e. starter r = SendErr e) \<or> elector r = SendLost) \<longrightarrow>
      (\<exists>r' e'. runner_step r r' \<and> cli r' = CliReturned (Some e')))"
proof -
  have inv: "runner_inv le r" using runner_inv_steps [OF assms(2) runner_inv_start [OF assms(1)]] .
  have "\<exists>r' e'. runner_step r r' \<and> cli r' = CliReturned (Some e')"
    if "cli r = CliSelect" "(\<exists>e. starter r = SendErr e) \<or> elector r = SendLost"
    using that(2)
  proof
    assume "\<exists>e. starter r = SendErr e"
    then obtain e where "starter r = SendErr e" ..
    from err_received [OF that(1) this] show ?thesis by (intro exI conjI, assumption) simp
  next
    assume "elector r = SendLost"
    from lost_received [OF that(1) this] show ?thesis by (intro exI conjI, assumption) simp
  qed
  moreover have "starts r \<le> 1" "le \<and> starts r = 1 \<longrightarrow> hasLed r"
    using inv by (auto split: if_splits)
  moreover have "\<forall>e. cli r = CliReturned (Some e) \<longrightarrow> runErr r = Some e \<or> le \<and> e = ''leader election lost''"
    using inv by simp
  ultimately show ?thesis by blast
qed

definition demo_leading :: Runner where
  "demo_leading = \<lparr>once = True, starter = Running, elector = Leading, cli = CliSelect, starts = 1, hasLed = True, runErr = None\<rparr>"

lemma demo_leader: "runner_steps (NewRunner\<lparr>elector := Campaigning\<rparr>) demo_leading"
proof -
  have "runner_step (NewRunner\<lparr>elector := Campaigning\<rparr>) (OnStartedLeading
      ((NewRunner\<lparr>elector := Campaigning\<rparr>)\<lparr>elector := Leading, hasLed := True\<rparr>))"
    by (rule leads) (simp_all add: NewRunner_def)
  then show ?thesis by (simp add: NewRunner_def OnStartedLeading_def call_start_def demo_leading_def r_into_rtranclp)
qed

theorem runner_starts_once_witness:
  "runner_steps (NewRunner\<lparr>elector := Campaigning\<rparr>) demo_leading \<and> starts demo_leading = 1 \<and> hasLed demo_leading"
proof -
  have "Runner_Start True None NewRunner = Inr (NewRunner\<lparr>elector := Campaigning\<rparr>)"
    by (simp add: Runner_Start_def startLeaderElection_def)
  moreover have "starts demo_leading = 1" by (simp add: demo_leading_def)
  ultimately show ?thesis using runner_starts_once [of True None _ demo_leading] demo_leader by blast
qed

text \<open>
  A signal ends the process while \<open>run\<close> is still in the executor's \<open>RunJobs\<close>: the command does not
  wait for the workers to be shut down.
\<close>

lemma signal_skips_shutdown:
  "\<exists>r0 r. Runner_Start False None NewRunner = Inr r0 \<and> runner_steps r0 r \<and>
     cli r = CliReturned None \<and> starter r = Running"
proof -
  have "runner_step (call_start NewRunner) ((call_start NewRunner)\<lparr>cli := CliReturned None\<rparr>)"
    by (rule interrupted) (simp add: call_start_def NewRunner_def)
  then show ?thesis by (auto simp: Runner_Start_def call_start_def intro: r_into_rtranclp)
qed

end
