(* ===== verification/Reconciler.thy ===== *)
theory Reconciler
  imports Api_Types Go_Json_Text
begin

text \<open>
  The controller of the custom resource (\<open>controllers/triggerservice/triggerservice_controller.go\<close>,
  \<open>controllers/utils/utils.go\<close>): it writes the specification of a trigger service into a config map,
  restarts the pods of its worker when the map has changed, and creates the worker. The API server
  is a parameter, a record of the calls the reconciler makes on a state \<open>'k\<close>; a call that fails
  leaves the state alone.
\<close>

section \<open>Objects\<close>

record OwnerReference =
  or_APIVersion :: string
  or_Kind :: string
  or_Name :: string
  or_UID :: string
  or_BlockOwnerDeletion :: bool

record TriggerService =
  ts_Name :: string
  ts_Namespace :: string
  ts_UID :: string
  ts_DeletionTimestamp :: "time option"
  ts_Finalizers :: "string list"
  ts_Spec :: TriggerServiceSpec

definition zero_TriggerService :: TriggerService where
  "zero_TriggerService = \<lparr>ts_Name = '''', ts_Namespace = '''', ts_UID = '''', ts_DeletionTimestamp = None,
     ts_Finalizers = [], ts_Spec = \<lparr>sp_Worker = None, sp_Triggers = None\<rparr>\<rparr>"

record ConfigMap =
  cm_Namespace :: string
  cm_Name :: string
  cm_Data :: "(string \<times> string) list option"
  cm_Owners :: "OwnerReference list"

record ServiceAccount =
  sa_Namespace :: string
  sa_Name :: string
  sa_Owners :: "OwnerReference list"

record Subject =
  sj_Kind :: string
  sj_Name :: string
  sj_Namespace :: string

definition owner_of :: "TriggerService \<Rightarrow> OwnerReference list" where
  "owner_of ts = [\<lparr>or_APIVersion = ''standard.oam.dev/v1alpha1'', or_Kind = ''TriggerService'',
     or_Name = ts_Name ts, or_UID = ts_UID ts, or_BlockOwnerDeletion = True\<rparr>]"

definition triggerServiceFinalizer :: string where
  "triggerServiceFinalizer = ''trigger.oam.dev/trigger-service-finalizer''"

section \<open>The JSON text of a specification\<close>

text \<open>The fields in the order of the structs, without the empty ones marked \<open>omitempty\<close>.\<close>

definition raw_json :: "json option \<Rightarrow> json" where
  "raw_json p = (case p of None \<Rightarrow> JNull | Some v \<Rightarrow> v)"

definition omit_nil :: "string \<Rightarrow> json option \<Rightarrow> (string \<times> json) list" where
  "omit_nil k p = (case p of None \<Rightarrow> [] | Some v \<Rightarrow> [(k, v)])"

definition omit_empty :: "string \<Rightarrow> string \<Rightarrow> (string \<times> json) list" where
  "omit_empty k s = (if s = '''' then [] else [(k, JStr s)])"

definition source_json :: "Source \<Rightarrow> json" where
  "source_json s = JObj [(''type'', JStr (src_Type s)), (''properties'', raw_json (src_Properties s))]"

definition action_json :: "ActionMeta \<Rightarrow> json" where
  "action_json a = JObj ((''type'', JStr (am_Type a)) # omit_nil ''properties'' (am_Properties a))"

definition trigger_json :: "TriggerMeta \<Rightarrow> json" where
  "trigger_json t = JObj ((''source'', source_json (tm_Source t)) # omit_empty ''filter'' (tm_Filter t) @
     [(''action'', action_json (tm_Action t))])"

definition worker_json :: "Worker \<Rightarrow> json" where
  "worker_json w = JObj (omit_empty ''template'' (wk_Template w) @ omit_nil ''properties'' (wk_Properties w))"

definition spec_json :: "TriggerServiceSpec \<Rightarrow> json" where
  "spec_json s = JObj (omit_nil ''worker'' (map_option worker_json (sp_Worker s)) @
     [(''triggers'', case sp_Triggers s of None \<Rightarrow> JNull | Some ts \<Rightarrow> JArr (map trigger_json ts))])"

section \<open>The API server\<close>

datatype api_error = NotFound | Failure string | PanicNilMap

type_synonym nsname = "string \<times> string"

record ('k, 'p, 'd) kube =
  k_getTS :: "nsname \<Rightarrow> 'k \<Rightarrow> api_error + TriggerService"
  k_updateTS :: "TriggerService \<Rightarrow> 'k \<Rightarrow> api_error + 'k"
  k_getCM :: "nsname \<Rightarrow> 'k \<Rightarrow> api_error + ConfigMap"
  k_createCM :: "ConfigMap \<Rightarrow> 'k \<Rightarrow> api_error + 'k"
  k_updateCM :: "ConfigMap \<Rightarrow> 'k \<Rightarrow> api_error + 'k"
  k_listPods :: "string \<Rightarrow> string \<Rightarrow> 'k \<Rightarrow> api_error + 'p list"
  k_deletePod :: "'p \<Rightarrow> 'k \<Rightarrow> api_error + 'k"
  k_listDeployments :: "string \<Rightarrow> 'k \<Rightarrow> api_error + 'd list"
  k_createDeployment :: "'d \<Rightarrow> OwnerReference list \<Rightarrow> 'k \<Rightarrow> api_error + 'k"
  k_getSA :: "nsname \<Rightarrow> 'k \<Rightarrow> api_error + ServiceAccount"
  k_createSA :: "ServiceAccount \<Rightarrow> 'k \<Rightarrow> api_error + 'k"
  k_getSubjects :: "'k \<Rightarrow> api_error + Subject list"
  k_updateSubjects :: "Subject list \<Rightarrow> 'k \<Rightarrow> api_error + 'k"

text \<open>The outcome of a handler: its error, if any, and the state it leaves.\<close>

definition api_write :: "api_error + 'k \<Rightarrow> 'k \<Rightarrow> api_error option \<times> 'k" where
  "api_write r k = (case r of Inl e \<Rightarrow> (Some e, k) | Inr k' \<Rightarrow> (None, k'))"

definition and_then ::
    "api_error option \<times> 'k \<Rightarrow> ('k \<Rightarrow> api_error option \<times> 'k) \<Rightarrow> api_error option \<times> 'k" where
  "and_then r f = (case r of (Some e, k) \<Rightarrow> (Some e, k) | (None, k) \<Rightarrow> f k)"

section \<open>The reconciler\<close>

fun delete_pods :: "('k, 'p, 'd) kube \<Rightarrow> 'p list \<Rightarrow> 'k \<Rightarrow> api_error option \<times> 'k" where
  "delete_pods K [] k = (None, k)"
| "delete_pods K (p # ps) k = and_then (api_write (k_deletePod K p k) k) (delete_pods K ps)"

definition restartPod :: "('k, 'p, 'd) kube \<Rightarrow> TriggerService \<Rightarrow> 'k \<Rightarrow> api_error option \<times> 'k" where
  "restartPod K ts k =
     (case k_listPods K (ts_Namespace ts) (ts_Name ts) k of
        Inl e \<Rightarrow> (Some e, k)
      | Inr pods \<Rightarrow> delete_pods K pods k)"

definition handleTriggerConfig :: "('k, 'p, 'd) kube \<Rightarrow> TriggerService \<Rightarrow> 'k \<Rightarrow> api_error option \<times> 'k" where
  "handleTriggerConfig K ts k =
     (let jsonByte = render (spec_json (ts_Spec ts)); key = ts_Name ts @ ''.json''
      in case k_getCM K (ts_Namespace ts, ts_Name ts) k of
           Inl NotFound \<Rightarrow>
             api_write (k_createCM K \<lparr>cm_Namespace = ts_Namespace ts, cm_Name = ts_Name ts,
               cm_Data = Some [(key, jsonByte)], cm_Owners = owner_of ts\<rparr> k) k
         | Inl e \<Rightarrow> (Some e, k)
         | Inr cm \<Rightarrow>
             (case cm_Data cm of
                None \<Rightarrow> (Some PanicNilMap, k)
              | Some d \<Rightarrow>
                  and_then (api_write (k_updateCM K (cm\<lparr>cm_Data := Some (AList.update key jsonByte d)\<rparr>) k) k)
                    (restartPod K ts)))"

text \<open>\<open>createRoles\<close>: it returns at once when the account exists, and goes on after other errors.\<close>

definition bind_role :: "('k, 'p, 'd) kube \<Rightarrow> TriggerService \<Rightarrow> string \<Rightarrow> 'k \<Rightarrow> api_error option \<times> 'k" where
  "bind_role K ts saName k =
     (case k_getSubjects K k of
        Inl e \<Rightarrow> (Some e, k)
      | Inr subjects \<Rightarrow>
          let subject = \<lparr>sj_Kind = ''ServiceAccount'', sj_Name = saName, sj_Namespace = ts_Namespace ts\<rparr>
          in if subject \<in> set subjects then (None, k)
             else api_write (k_updateSubjects K (subjects @ [subject]) k) k)"

definition createRoles ::
    "('k, 'p, 'd) kube \<Rightarrow> TriggerService \<Rightarrow> api_error + string \<Rightarrow> 'k \<Rightarrow> api_error option \<times> 'k" where
  "createRoles K ts account k =
     (case account of
        Inl e \<Rightarrow> (Some e, k)
      | Inr saName \<Rightarrow>
          (case k_getSA K (ts_Namespace ts, saName) k of
             Inr sa \<Rightarrow> (None, k)
           | Inl NotFound \<Rightarrow>
               and_then (api_write (k_createSA K \<lparr>sa_Namespace = ts_Namespace ts, sa_Name = saName,
                 sa_Owners = owner_of ts\<rparr> k) k) (bind_role K ts saName)
           | Inl e \<Rightarrow> bind_role K ts saName k))"

text \<open>
  \<open>load\<close> loads a worker template by name; \<open>compile\<close> evaluates it for the service and the parameters
  and returns the service account and the deployment it describes.
\<close>

definition createWorker ::
    "('k, 'p, 'd) kube \<Rightarrow> (string \<Rightarrow> api_error + string) \<Rightarrow>
      (string \<Rightarrow> nsname \<Rightarrow> json option option \<Rightarrow> api_error + (api_error + string) \<times> (api_error + 'd)) \<Rightarrow>
      TriggerService \<Rightarrow> 'k \<Rightarrow> api_error option \<times> 'k" where
  "createWorker K load compile ts k =
     (let templateName = (case sp_Worker (ts_Spec ts) of
            None \<Rightarrow> ''default''
          | Some w \<Rightarrow> if wk_Template w \<noteq> '''' then wk_Template w else ''default'');
          parameter = map_option wk_Properties (sp_Worker (ts_Spec ts))
      in case load templateName of
           Inl e \<Rightarrow> (Some e, k)
         | Inr tmpl \<Rightarrow>
             (case compile tmpl (ts_Namespace ts, ts_Name ts) parameter of
                Inl e \<Rightarrow> (Some e, k)
              | Inr (account, deployment) \<Rightarrow>
                  and_then (createRoles K ts account k)
                    (\<lambda>k. case deployment of
                           Inl e \<Rightarrow> (Some e, k)
                         | Inr deploy \<Rightarrow> api_write (k_createDeployment K deploy (owner_of ts) k) k)))"

definition Reconcile ::
    "('k, 'p, 'd) kube \<Rightarrow> (string \<Rightarrow> api_error + string) \<Rightarrow>
      (string \<Rightarrow> nsname \<Rightarrow> json option option \<Rightarrow> api_error + (api_error + string) \<times> (api_error + 'd)) \<Rightarrow>
      nsname \<Rightarrow> 'k \<Rightarrow> api_error option \<times> 'k" where
  "Reconcile K load compile req k =
     (case (case k_getTS K req k of
              Inr ts \<Rightarrow> Inr ts | Inl NotFound \<Rightarrow> Inr zero_TriggerService | Inl e \<Rightarrow> Inl e) of
        Inl e \<Rightarrow> (Some e, k)
      | Inr ts \<Rightarrow>
          if ts_DeletionTimestamp ts \<noteq> None \<and> triggerServiceFinalizer \<notin> set (ts_Finalizers ts)
          then api_write (k_updateTS K (ts\<lparr>ts_Finalizers := ts_Finalizers ts @ [triggerServiceFinalizer]\<rparr>) k) k
          else and_then (handleTriggerConfig K ts k)
                 (\<lambda>k. case k_listDeployments K (ts_Name ts) k of
                        Inl e \<Rightarrow> (Some e, k)
                      | Inr deployments \<Rightarrow>
                          if length deployments = 0 then createWorker K load compile ts k else (None, k)))"

section \<open>Properties\<close>

text \<open>
  What the reconciler relies on: the server returns the config map that was written last, under its
  name, and the other calls do not touch config maps.
\<close>

definition config_maps_stored :: "('k, 'p, 'd) kube \<Rightarrow> bool" where
  "config_maps_stored K \<longleftrightarrow>
     (\<forall>cm k k'. k_createCM K cm k = Inr k' \<or> k_updateCM K cm k = Inr k' \<longrightarrow>
       k_getCM K (cm_Namespace cm, cm_Name cm) k' = Inr cm) \<and>
     (\<forall>n k cm. k_getCM K n k = Inr cm \<longrightarrow> (cm_Namespace cm, cm_Name cm) = n) \<and>
     (\<forall>n k k'. ((\<exists>p. k_deletePod K p k = Inr k') \<or> (\<exists>d os. k_createDeployment K d os k = Inr k') \<or>
       (\<exists>sa. k_createSA K sa k = Inr k') \<or> (\<exists>ss. k_updateSubjects K ss k = Inr k')) \<longrightarrow>
       k_getCM K n k' = k_getCM K n k)"

lemma writes_NoneD: "api_write r k = (None, k') \<Longrightarrow> r = Inr k'"
  by (auto simp: api_write_def split: sum.splits)

lemma and_then_NoneD: "and_then r f = (None, k') \<Longrightarrow> \<exists>k. r = (None, k) \<and> f k = (None, k')"
  by (auto simp: and_then_def split: prod.splits option.splits)

lemma delete_pods_cm:
  "config_maps_stored K \<Longrightarrow> delete_pods K ps k = (None, k') \<Longrightarrow> k_getCM K n k' = k_getCM K n k"
proof (induction ps arbitrary: k)
  case (Cons p ps)
  then obtain k1 where "k_deletePod K p k = Inr k1" "delete_pods K ps k1 = (None, k')"
    by (auto dest!: and_then_NoneD writes_NoneD)
  moreover have "k_getCM K n k1 = k_getCM K n k"
    using Cons.prems(1) calculation(1) unfolding config_maps_stored_def by blast
  ultimately show ?case using Cons by simp
qed simp

lemma bind_role_cm:
  assumes "config_maps_stored K" and "bind_role K ts a k = (None, k')"
  shows "k_getCM K n k' = k_getCM K n k"
proof -
  have "k' = k \<or> (\<exists>ss. k_updateSubjects K ss k = Inr k')"
    using assms(2) by (auto simp: bind_role_def Let_def split: sum.splits if_splits dest: writes_NoneD)
  with assms(1) show ?thesis unfolding config_maps_stored_def by blast
qed

lemma createRoles_cm:
  assumes "config_maps_stored K" and "createRoles K ts account k = (None, k')"
  shows "k_getCM K n k' = k_getCM K n k"
proof -
  from assms(2) obtain a where a: "account = Inr a" by (cases account) (auto simp: createRoles_def)
  show ?thesis
  proof (cases "k_getSA K (ts_Namespace ts, a) k")
    case (Inr sa)
    with assms(2) a show ?thesis by (simp add: createRoles_def)
  next
    case (Inl e)
    show ?thesis
    proof (cases "e = NotFound")
      case True
      with Inl a assms(2) obtain sa k1 where k1: "k_createSA K sa k = Inr k1" "bind_role K ts a k1 = (None, k')"
        by (auto simp: createRoles_def dest!: and_then_NoneD writes_NoneD)
      then have "k_getCM K n k1 = k_getCM K n k" using assms(1) unfolding config_maps_stored_def by blast
      with bind_role_cm [OF assms(1) k1(2)] show ?thesis by simp
    next
      case False
      with Inl a assms(2) have "bind_role K ts a k = (None, k')"
        by (cases e) (simp_all add: createRoles_def)
      then show ?thesis by (rule bind_role_cm [OF assms(1)])
    qed
  qed
qed

lemma createWorker_cm:
  assumes "config_maps_stored K" and "createWorker K load compile ts k = (None, k')"
  shows "k_getCM K n k' = k_getCM K n k"
proof -
  have "\<exists>account k1 d. createRoles K ts account k = (None, k1) \<and>
      k_createDeployment K d (owner_of ts) k1 = Inr k'"
    using assms(2)
    by (auto simp: createWorker_def Let_def split: sum.splits dest!: and_then_NoneD writes_NoneD) blast
  then obtain account k1 d where "createRoles K ts account k = (None, k1)"
    "k_createDeployment K d (owner_of ts) k1 = Inr k'" by blast
  moreover from this have "k_getCM K n k' = k_getCM K n k1"
    using assms(1) unfolding config_maps_stored_def by blast
  ultimately show ?thesis using createRoles_cm [OF assms(1)] by metis
qed

lemma handleTriggerConfig_cm:
  assumes "config_maps_stored K" and "handleTriggerConfig K ts k = (None, k')"
  shows "\<exists>cm d. k_getCM K (ts_Namespace ts, ts_Name ts) k' = Inr cm \<and> cm_Data cm = Some d \<and>
    map_of d = (case k_getCM K (ts_Namespace ts, ts_Name ts) k of
        Inr cm0 \<Rightarrow> map_of (the (cm_Data cm0)) | Inl e \<Rightarrow> Map.empty)
      (ts_Name ts @ ''.json'' \<mapsto> render (spec_json (ts_Spec ts)))"
proof (cases "k_getCM K (ts_Namespace ts, ts_Name ts) k")
  case (Inl e)
  with assms(2) have "e = NotFound" by (auto simp: handleTriggerConfig_def Let_def split: api_error.splits)
  with Inl assms(2) obtain cm where "k_createCM K cm k = Inr k'" "cm_Namespace cm = ts_Namespace ts"
    "cm_Name cm = ts_Name ts" "cm_Data cm = Some [(ts_Name ts @ ''.json'', render (spec_json (ts_Spec ts)))]"
    by (auto simp: handleTriggerConfig_def Let_def dest: writes_NoneD)
  moreover from this have "k_getCM K (cm_Namespace cm, cm_Name cm) k' = Inr cm"
    using assms(1) unfolding config_maps_stored_def by blast
  ultimately show ?thesis using Inl by auto
next
  case (Inr cm0)
  with assms(2) obtain d0 where d0: "cm_Data cm0 = Some d0"
    by (auto simp: handleTriggerConfig_def Let_def split: option.splits)
  let ?cm = "cm0\<lparr>cm_Data := Some (AList.update (ts_Name ts @ ''.json'') (render (spec_json (ts_Spec ts))) d0)\<rparr>"
  from Inr d0 assms(2) obtain k1 where k1: "k_updateCM K ?cm k = Inr k1" "restartPod K ts k1 = (None, k')"
    by (auto simp: handleTriggerConfig_def Let_def dest!: and_then_NoneD writes_NoneD)
  have n: "(cm_Namespace cm0, cm_Name cm0) = (ts_Namespace ts, ts_Name ts)"
    using Inr assms(1) unfolding config_maps_stored_def by blast
  have "k_getCM K (cm_Namespace ?cm, cm_Name ?cm) k1 = Inr ?cm"
    using k1(1) assms(1) unfolding config_maps_stored_def by blast
  moreover have "k_getCM K m k' = k_getCM K m k1" for m
    using k1(2) delete_pods_cm [OF assms(1)] by (auto simp: restartPod_def split: sum.splits)
  ultimately show ?thesis using n Inr d0 by (auto simp: update_conv')
qed

lemma Reconcile_cm:
  assumes "config_maps_stored K" and "k_getTS K req k = Inr ts" and "ts_DeletionTimestamp ts = None"
    and "Reconcile K load compile req k = (None, k')"
  shows "\<exists>k1. handleTriggerConfig K ts k = (None, k1) \<and> (\<forall>n. k_getCM K n k' = k_getCM K n k1)"
proof -
  obtain k1 where "handleTriggerConfig K ts k = (None, k1)"
    "k' = k1 \<or> createWorker K load compile ts k1 = (None, k')"
    using assms(2-4) by (auto simp: Reconcile_def split: sum.splits if_splits dest!: and_then_NoneD)
  then show ?thesis using createWorker_cm [OF assms(1)] by auto
qed

text \<open>
  C12. When a live service has been reconciled without an error, its config map holds the JSON of
  its specification under the key of the service, and every other entry is as before.
\<close>

theorem config_map_has_spec:
  assumes "config_maps_stored K" and "k_getTS K (ns, name) k = Inr ts"
    and "ts_Namespace ts = ns" and "ts_Name ts = name" and "ts_DeletionTimestamp ts = None"
    and "Reconcile K load compile (ns, name) k = (None, k')"
  shows "\<exists>cm d. k_getCM K (ns, name) k' = Inr cm \<and> cm_Data cm = Some d \<and>
    map_of d = (case k_getCM K (ns, name) k of
        Inr cm0 \<Rightarrow> map_of (the (cm_Data cm0)) | Inl e \<Rightarrow> Map.empty)
      (name @ ''.json'' \<mapsto> render (spec_json (ts_Spec ts)))"
  using Reconcile_cm [OF assms(1,2,5,6)] handleTriggerConfig_cm [OF assms(1), of ts k] assms(3,4) by auto

text \<open>A server with one service and its config maps.\<close>

definition demo_service :: TriggerService where
  "demo_service = \<lparr>ts_Name = ''t'', ts_Namespace = ''ns'', ts_UID = ''1'', ts_DeletionTimestamp = None,
     ts_Finalizers = [], ts_Spec = \<lparr>sp_Worker = None, sp_Triggers = Some []\<rparr>\<rparr>"

definition demo_server :: "(nsname \<rightharpoonup> ConfigMap, unit, unit) kube" where
  "demo_server =
     \<lparr>k_getTS = \<lambda>n k. if n = (''ns'', ''t'') then Inr demo_service else Inl NotFound,
      k_updateTS = \<lambda>ts k. Inr k,
      k_getCM = \<lambda>n k. case k n of
        Some cm \<Rightarrow> if (cm_Namespace cm, cm_Name cm) = n then Inr cm else Inl NotFound | None \<Rightarrow> Inl NotFound,
      k_createCM = \<lambda>cm k. Inr (k((cm_Namespace cm, cm_Name cm) \<mapsto> cm)),
      k_updateCM = \<lambda>cm k. Inr (k((cm_Namespace cm, cm_Name cm) \<mapsto> cm)),
      k_listPods = \<lambda>ns n k. Inr [()], k_deletePod = \<lambda>p k. Inr k,
      k_listDeployments = \<lambda>n k. Inr [()], k_createDeployment = \<lambda>d os k. Inr k,
      k_getSA = \<lambda>n k. Inl NotFound, k_createSA = \<lambda>sa k. Inr k,
      k_getSubjects = \<lambda>k. Inr [], k_updateSubjects = \<lambda>ss k. Inr k\<rparr>"

lemma demo_server_stores: "config_maps_stored demo_server"
  by (auto simp: config_maps_stored_def demo_server_def split: option.splits if_splits)

theorem config_map_has_spec_witness:
  "\<exists>k' cm d. Reconcile demo_server (\<lambda>t. Inl NotFound) (\<lambda>t n p. Inl NotFound) (''ns'', ''t'') Map.empty = (None, k') \<and>
    k_getCM demo_server (''ns'', ''t'') k' = Inr cm \<and> cm_Data cm = Some d \<and>
    map_of d = [''t.json'' \<mapsto> render (spec_json (ts_Spec demo_service))]"
proof -
  obtain k' where r: "Reconcile demo_server (\<lambda>t. Inl NotFound) (\<lambda>t n p. Inl NotFound) (''ns'', ''t'') Map.empty = (None, k')"
    by (simp add: Reconcile_def demo_server_def demo_service_def handleTriggerConfig_def api_write_def
        and_then_def Let_def)
  have "k_getTS demo_server (''ns'', ''t'') Map.empty = Inr demo_service"
    "k_getCM demo_server (''ns'', ''t'') Map.empty = Inl NotFound"
    "ts_Namespace demo_service = ''ns''" "ts_Name demo_service = ''t''" "ts_DeletionTimestamp demo_service = None"
    by (simp_all add: demo_server_def demo_service_def)
  with config_map_has_spec [OF demo_server_stores _ _ _ _ r] r show ?thesis by auto
qed

end
