(* ===== verification/Deep_Copy.thy ===== *)
theory Deep_Copy
  imports Api_Types
begin

text \<open>
  The deep copies of the API types (\<open>api/v1alpha1/zz_generated.deepcopy.go\<close>, with the types of
  \<open>triggerservice_types.go\<close> and \<open>eventlistener_types.go\<close>). What a copy is about is sharing, so the
  structs are modelled with their pointers here: a pointer and the array of a slice are addresses in a
  store, nil is \<open>None\<close>. A struct itself is a value. The copies of the library's types
  (\<open>RawExtension\<close>, \<open>ObjectMeta\<close>, \<open>ListMeta\<close>, \<open>Time\<close>) are parameters.
\<close>

section \<open>Structs and the store\<close>

record ActionMeta_p =
  amp_Type :: string
  amp_Properties :: "nat option"

record Source_p =
  srcp_Type :: string
  srcp_Properties :: "nat option"

record TriggerMeta_p =
  tmp_Source :: Source_p
  tmp_Filter :: string
  tmp_Action :: ActionMeta_p

record Worker_p =
  wkp_Template :: string
  wkp_Properties :: "nat option"

record TriggerServiceSpec_p =
  spp_Worker :: "nat option"
  spp_Triggers :: "nat option"

record 'm TriggerService_p =
  tsp_TypeMeta :: "string \<times> string"
  tsp_ObjectMeta :: 'm
  tsp_Spec :: TriggerServiceSpec_p

record 'm TriggerServiceList_p =
  tlp_TypeMeta :: "string \<times> string"
  tlp_ListMeta :: 'm
  tlp_Items :: "nat option"

record EventResource =
  er_APIVersion :: string
  er_Kind :: string
  er_Name :: string
  er_Namespace :: string

record Event_p =
  evp_Resource :: EventResource
  evp_Timestamp :: time
  evp_Type :: string
  evp_Data :: "nat option"

record 'm EventListener_p =
  elp_TypeMeta :: "string \<times> string"
  elp_ObjectMeta :: 'm
  elp_Events :: "nat option"

record 'm EventListenerList_p =
  ellp_TypeMeta :: "string \<times> string"
  ellp_ListMeta :: 'm
  ellp_Items :: "nat option"

text \<open>Addresses below \<open>lim\<close> are in use.\<close>

record 'm store =
  lim :: nat
  raws :: "nat \<Rightarrow> json"
  workers_at :: "nat \<Rightarrow> Worker_p"
  triggers_at :: "nat \<Rightarrow> TriggerMeta_p list"
  services_at :: "nat \<Rightarrow> 'm TriggerService_p list"
  events_at :: "nat \<Rightarrow> Event_p list"
  listeners_at :: "nat \<Rightarrow> 'm EventListener_p list"

record 'm lib_copies =
  copy_raw :: "json \<Rightarrow> json"
  copy_meta :: "'m \<Rightarrow> 'm"
  copy_time :: "time \<Rightarrow> time"

section \<open>Pointers and slices\<close>

text \<open>The shapes that the generator repeats: a pointer with a new target, and the elements of a slice.\<close>

definition copy_ptr ::
    "('p \<Rightarrow> 'm store \<Rightarrow> 'p \<times> 'm store) \<Rightarrow> ('m store \<Rightarrow> nat \<Rightarrow> 'p) \<Rightarrow> (nat \<Rightarrow> 'p \<Rightarrow> 'm store \<Rightarrow> 'm store) \<Rightarrow>
      nat option \<Rightarrow> 'm store \<Rightarrow> nat option \<times> 'm store" where
  "copy_ptr into at put p s =
     (case p of
        None \<Rightarrow> (None, s)
      | Some r \<Rightarrow>
          let out = lim s
          in case into (at s r) (s\<lparr>lim := Suc out\<rparr>) of (x, s') \<Rightarrow> (Some out, put out x s'))"

fun copy_elems :: "('p \<Rightarrow> 'm store \<Rightarrow> 'p \<times> 'm store) \<Rightarrow> 'p list \<Rightarrow> 'm store \<Rightarrow> 'p list \<times> 'm store" where
  "copy_elems into [] s = ([], s)"
| "copy_elems into (x # xs) s =
     (case into x s of (y, s1) \<Rightarrow> (case copy_elems into xs s1 of (ys, s2) \<Rightarrow> (y # ys, s2)))"

text \<open>\<open>DeepCopy\<close> and \<open>DeepCopyObject\<close> on a pointer to a struct: nil stays nil.\<close>

definition deep_copy ::
    "('p \<Rightarrow> 'm store \<Rightarrow> 'p \<times> 'm store) \<Rightarrow> 'p option \<Rightarrow> 'm store \<Rightarrow> 'p option \<times> 'm store" where
  "deep_copy into p s = (case p of None \<Rightarrow> (None, s) | Some x \<Rightarrow> (case into x s of (y, s') \<Rightarrow> (Some y, s')))"

section \<open>The copies\<close>

definition RawExtension_copy :: "'m lib_copies \<Rightarrow> nat option \<Rightarrow> 'm store \<Rightarrow> nat option \<times> 'm store" where
  "RawExtension_copy L = copy_ptr (\<lambda>v s. (copy_raw L v, s)) raws (\<lambda>r v s. s\<lparr>raws := (raws s)(r := v)\<rparr>)"

definition ActionMeta_DeepCopyInto :: "'m lib_copies \<Rightarrow> ActionMeta_p \<Rightarrow> 'm store \<Rightarrow> ActionMeta_p \<times> 'm store" where
  "ActionMeta_DeepCopyInto L p s =
     (case RawExtension_copy L (amp_Properties p) s of (r, s') \<Rightarrow> (p\<lparr>amp_Properties := r\<rparr>, s'))"

definition Event_DeepCopyInto :: "'m lib_copies \<Rightarrow> Event_p \<Rightarrow> 'm store \<Rightarrow> Event_p \<times> 'm store" where
  "Event_DeepCopyInto L p s =
     (case RawExtension_copy L (evp_Data p) s of
        (r, s') \<Rightarrow> (p\<lparr>evp_Timestamp := copy_time L (evp_Timestamp p), evp_Data := r\<rparr>, s'))"

definition EventListener_DeepCopyInto ::
    "'m lib_copies \<Rightarrow> 'm EventListener_p \<Rightarrow> 'm store \<Rightarrow> 'm EventListener_p \<times> 'm store" where
  "EventListener_DeepCopyInto L p s =
     (case copy_ptr (copy_elems (Event_DeepCopyInto L)) events_at (\<lambda>r xs s. s\<lparr>events_at := (events_at s)(r := xs)\<rparr>)
             (elp_Events p) s of
        (r, s') \<Rightarrow> (p\<lparr>elp_ObjectMeta := copy_meta L (elp_ObjectMeta p), elp_Events := r\<rparr>, s'))"

definition EventListenerList_DeepCopyInto ::
    "'m lib_copies \<Rightarrow> 'm EventListenerList_p \<Rightarrow> 'm store \<Rightarrow> 'm EventListenerList_p \<times> 'm store" where
  "EventListenerList_DeepCopyInto L p s =
     (case copy_ptr (copy_elems (EventListener_DeepCopyInto L)) listeners_at
             (\<lambda>r xs s. s\<lparr>listeners_at := (listeners_at s)(r := xs)\<rparr>) (ellp_Items p) s of
        (r, s') \<Rightarrow> (p\<lparr>ellp_ListMeta := copy_meta L (ellp_ListMeta p), ellp_Items := r\<rparr>, s'))"

definition EventResource_DeepCopyInto :: "EventResource \<Rightarrow> 'm store \<Rightarrow> EventResource \<times> 'm store" where
  "EventResource_DeepCopyInto p s = (p, s)"

definition Source_DeepCopyInto :: "'m lib_copies \<Rightarrow> Source_p \<Rightarrow> 'm store \<Rightarrow> Source_p \<times> 'm store" where
  "Source_DeepCopyInto L p s =
     (case RawExtension_copy L (srcp_Properties p) s of (r, s') \<Rightarrow> (p\<lparr>srcp_Properties := r\<rparr>, s'))"

definition TriggerMeta_DeepCopyInto :: "'m lib_copies \<Rightarrow> TriggerMeta_p \<Rightarrow> 'm store \<Rightarrow> TriggerMeta_p \<times> 'm store" where
  "TriggerMeta_DeepCopyInto L p s =
     (case Source_DeepCopyInto L (tmp_Source p) s of
        (src, s1) \<Rightarrow>
          (case ActionMeta_DeepCopyInto L (tmp_Action p) s1 of
             (act, s2) \<Rightarrow> (p\<lparr>tmp_Source := src, tmp_Action := act\<rparr>, s2)))"

definition Worker_DeepCopyInto :: "'m lib_copies \<Rightarrow> Worker_p \<Rightarrow> 'm store \<Rightarrow> Worker_p \<times> 'm store" where
  "Worker_DeepCopyInto L p s =
     (case RawExtension_copy L (wkp_Properties p) s of (r, s') \<Rightarrow> (p\<lparr>wkp_Properties := r\<rparr>, s'))"

definition TriggerServiceSpec_DeepCopyInto ::
    "'m lib_copies \<Rightarrow> TriggerServiceSpec_p \<Rightarrow> 'm store \<Rightarrow> TriggerServiceSpec_p \<times> 'm store" where
  "TriggerServiceSpec_DeepCopyInto L p s =
     (case copy_ptr (Worker_DeepCopyInto L) workers_at (\<lambda>r x s. s\<lparr>workers_at := (workers_at s)(r := x)\<rparr>)
             (spp_Worker p) s of
        (w, s1) \<Rightarrow>
          (case copy_ptr (copy_elems (TriggerMeta_DeepCopyInto L)) triggers_at
                  (\<lambda>r xs s. s\<lparr>triggers_at := (triggers_at s)(r := xs)\<rparr>) (spp_Triggers p) s1 of
             (ts, s2) \<Rightarrow> (p\<lparr>spp_Worker := w, spp_Triggers := ts\<rparr>, s2)))"

definition TriggerService_DeepCopyInto ::
    "'m lib_copies \<Rightarrow> 'm TriggerService_p \<Rightarrow> 'm store \<Rightarrow> 'm TriggerService_p \<times> 'm store" where
  "TriggerService_DeepCopyInto L p s =
     (case TriggerServiceSpec_DeepCopyInto L (tsp_Spec p) s of
        (sp, s') \<Rightarrow> (p\<lparr>tsp_ObjectMeta := copy_meta L (tsp_ObjectMeta p), tsp_Spec := sp\<rparr>, s'))"

definition TriggerServiceList_DeepCopyInto ::
    "'m lib_copies \<Rightarrow> 'm TriggerServiceList_p \<Rightarrow> 'm store \<Rightarrow> 'm TriggerServiceList_p \<times> 'm store" where
  "TriggerServiceList_DeepCopyInto L p s =
     (case copy_ptr (copy_elems (TriggerService_DeepCopyInto L)) services_at
             (\<lambda>r xs s. s\<lparr>services_at := (services_at s)(r := xs)\<rparr>) (tlp_Items p) s of
        (r, s') \<Rightarrow> (p\<lparr>tlp_ListMeta := copy_meta L (tlp_ListMeta p), tlp_Items := r\<rparr>, s'))"

definition ActionMeta_DeepCopy where "ActionMeta_DeepCopy L = deep_copy (ActionMeta_DeepCopyInto L)"
definition Event_DeepCopy where "Event_DeepCopy L = deep_copy (Event_DeepCopyInto L)"
definition EventListener_DeepCopy where "EventListener_DeepCopy L = deep_copy (EventListener_DeepCopyInto L)"
definition EventListenerList_DeepCopy where "EventListenerList_DeepCopy L = deep_copy (EventListenerList_DeepCopyInto L)"
definition EventResource_DeepCopy where "EventResource_DeepCopy = deep_copy EventResource_DeepCopyInto"
definition Source_DeepCopy where "Source_DeepCopy L = deep_copy (Source_DeepCopyInto L)"
definition TriggerMeta_DeepCopy where "TriggerMeta_DeepCopy L = deep_copy (TriggerMeta_DeepCopyInto L)"
definition Worker_DeepCopy where "Worker_DeepCopy L = deep_copy (Worker_DeepCopyInto L)"
definition TriggerServiceSpec_DeepCopy where "TriggerServiceSpec_DeepCopy L = deep_copy (TriggerServiceSpec_DeepCopyInto L)"
definition TriggerService_DeepCopy where "TriggerService_DeepCopy L = deep_copy (TriggerService_DeepCopyInto L)"
definition TriggerServiceList_DeepCopy where "TriggerServiceList_DeepCopy L = deep_copy (TriggerServiceList_DeepCopyInto L)"

section \<open>What a deep copy promises\<close>

definition same_at :: "nat \<Rightarrow> 'm store \<Rightarrow> 'm store \<Rightarrow> bool" where
  "same_at r s s' \<longleftrightarrow> raws s r = raws s' r \<and> workers_at s r = workers_at s' r \<and> triggers_at s r = triggers_at s' r \<and>
     services_at s r = services_at s' r \<and> events_at s r = events_at s' r \<and> listeners_at s r = listeners_at s' r"

definition extends :: "'m store \<Rightarrow> 'm store \<Rightarrow> bool" where
  "extends s s' \<longleftrightarrow> lim s \<le> lim s' \<and> (\<forall>r < lim s. same_at r s s')"

lemma extends_refl [simp]: "extends s s"
  by (simp add: extends_def same_at_def)

lemma extends_trans: "extends s s' \<Longrightarrow> extends s' s'' \<Longrightarrow> extends s s''"
  by (simp add: extends_def same_at_def)

text \<open>The value and the addresses of a pointer and of the elements of a slice.\<close>

definition ptr_val :: "('m store \<Rightarrow> nat \<Rightarrow> 'p) \<Rightarrow> ('m store \<Rightarrow> 'p \<Rightarrow> 'v) \<Rightarrow> 'm store \<Rightarrow> nat option \<Rightarrow> 'v option" where
  "ptr_val at val s p = map_option (\<lambda>r. val s (at s r)) p"

definition ptr_refs :: "('m store \<Rightarrow> nat \<Rightarrow> 'p) \<Rightarrow> ('m store \<Rightarrow> 'p \<Rightarrow> nat set) \<Rightarrow> 'm store \<Rightarrow> nat option \<Rightarrow> nat set" where
  "ptr_refs at refs s p = (case p of None \<Rightarrow> {} | Some r \<Rightarrow> insert r (refs s (at s r)))"

definition elems_val :: "('m store \<Rightarrow> 'p \<Rightarrow> 'v) \<Rightarrow> 'm store \<Rightarrow> 'p list \<Rightarrow> 'v list" where
  "elems_val val s ps = map (val s) ps"

definition elems_refs :: "('m store \<Rightarrow> 'p \<Rightarrow> nat set) \<Rightarrow> 'm store \<Rightarrow> 'p list \<Rightarrow> nat set" where
  "elems_refs refs s ps = (\<Union>p \<in> set ps. refs s p)"

text \<open>
  \<open>val\<close> is the value that a struct stands for in a store, \<open>refs\<close> are the addresses reachable from it. The
  value depends on those addresses only; a copy has the same value and only new addresses, and it
  leaves what was there before.
\<close>

definition independent_copy ::
    "('m store \<Rightarrow> 'p \<Rightarrow> 'v) \<Rightarrow> ('m store \<Rightarrow> 'p \<Rightarrow> nat set) \<Rightarrow> 'p \<Rightarrow> 'm store \<Rightarrow> 'p \<Rightarrow> 'm store \<Rightarrow> bool" where
  "independent_copy val refs p s p' s' \<longleftrightarrow>
     val s' p' = val s p \<and> val s' p = val s p \<and> refs s' p' \<inter> refs s' p = {} \<and>
     (\<forall>s2. (\<forall>r. r \<notin> refs s' p' \<longrightarrow> same_at r s' s2) \<longrightarrow> val s2 p = val s p)"

locale deep_copier =
  fixes into :: "'p \<Rightarrow> 'm store \<Rightarrow> 'p \<times> 'm store"
    and val :: "'m store \<Rightarrow> 'p \<Rightarrow> 'v"
    and refs :: "'m store \<Rightarrow> 'p \<Rightarrow> nat set"
  assumes frame: "\<forall>r \<in> refs s p. same_at r s s' \<Longrightarrow> val s' p = val s p \<and> refs s' p = refs s p"
    and copies: "refs s p \<subseteq> {..<lim s} \<Longrightarrow> into p s = (p', s') \<Longrightarrow>
      extends s s' \<and> val s' p' = val s p \<and> refs s' p' \<subseteq> {lim s..<lim s'}"
begin

lemma frame_extends:
  "refs s p \<subseteq> {..<lim s} \<Longrightarrow> extends s s' \<Longrightarrow> val s' p = val s p \<and> refs s' p = refs s p"
  by (rule frame) (auto simp: extends_def)

text \<open>Nothing that is written through the copy is seen through the original.\<close>

lemma independent:
  assumes "refs s p \<subseteq> {..<lim s}" and "into p s = (p', s')"
  shows "independent_copy val refs p s p' s'"
proof -
  note c = copies [OF assms]
  note f = frame_extends [OF assms(1) conjunct1 [OF c]]
  have "refs s' p \<subseteq> {..<lim s}" using assms(1) f by simp
  moreover have "refs s' p' \<subseteq> {lim s..<lim s'}" using c by simp
  ultimately have disj: "refs s' p' \<inter> refs s' p = {}" by (meson disjoint_iff atLeastLessThan_iff lessThan_iff not_le subsetD)
  have "val s2 p = val s p" if "\<forall>r. r \<notin> refs s' p' \<longrightarrow> same_at r s' s2" for s2
  proof -
    have "\<forall>r \<in> refs s' p. same_at r s' s2" using that disj by (meson disjoint_iff)
    from frame [OF this] f show ?thesis by simp
  qed
  with c f disj show ?thesis by (simp add: independent_copy_def)
qed

lemma DeepCopy_independent:
  assumes "refs s p \<subseteq> {..<lim s}" and "deep_copy into (Some p) s = (out, s')"
  shows "\<exists>p'. out = Some p' \<and> independent_copy val refs p s p' s'"
  using assms(2) independent [OF assms(1)] by (auto simp: deep_copy_def split: prod.splits)

text \<open>A struct is copied by copying one of its fields, or two of them in turn.\<close>

lemma field:
  assumes "\<And>q p. get (upd q p) = q" and "\<And>q p v. mk (upd q p) v = mk p v"
  shows "deep_copier (\<lambda>p s. case into (get p) s of (q, s') \<Rightarrow> (upd q p, s'))
    (\<lambda>s p. mk p (val s (get p))) (\<lambda>s p. refs s (get p))"
proof (unfold_locales, goal_cases)
  case (1 s p s')
  then show ?case using frame [of s "get p" s'] by simp
next
  case (2 s p p' s')
  obtain q s1 where q: "into (get p) s = (q, s1)" by fastforce
  with 2(2) have "p' = upd q p" "s1 = s'" by simp_all
  then show ?case using copies [OF 2(1) q] by (simp add: assms)
qed

lemma field2:
  assumes "deep_copier into2 val2 refs2"
    and "\<And>q q2 p. get (upd q q2 p) = q" and "\<And>q q2 p. get2 (upd q q2 p) = q2"
    and "\<And>q q2 p v v2. mk (upd q q2 p) v v2 = mk p v v2"
  shows "deep_copier
    (\<lambda>p s. case into (get p) s of (q, s1) \<Rightarrow> (case into2 (get2 p) s1 of (q2, s2) \<Rightarrow> (upd q q2 p, s2)))
    (\<lambda>s p. mk p (val s (get p)) (val2 s (get2 p))) (\<lambda>s p. refs s (get p) \<union> refs2 s (get2 p))"
proof (unfold_locales, goal_cases)
  case (1 s p s')
  then have "\<forall>r \<in> refs s (get p). same_at r s s'" "\<forall>r \<in> refs2 s (get2 p). same_at r s s'" by simp_all
  then show ?case using frame [of s "get p" s'] deep_copier.frame [OF assms(1), of s "get2 p" s'] by simp
next
  case (2 s p p' s')
  obtain q s1 where q: "into (get p) s = (q, s1)" by fastforce
  obtain q2 s2 where q2: "into2 (get2 p) s1 = (q2, s2)" by fastforce
  from 2(2) q q2 have p': "p' = upd q q2 p" "s' = s2" by simp_all
  from 2(1) have in1: "refs s (get p) \<subseteq> {..<lim s}" and in2: "refs2 s (get2 p) \<subseteq> {..<lim s}" by simp_all
  note c = copies [OF in1 q]
  note old = deep_copier.frame_extends [OF assms(1) in2 conjunct1 [OF c]]
  have "refs2 s1 (get2 p) \<subseteq> {..<lim s1}" using in2 c old by (auto simp: extends_def)
  note c2 = deep_copier.copies [OF assms(1) this q2]
  have "refs s1 q \<subseteq> {..<lim s1}" using c by auto
  note new = frame_extends [OF this conjunct1 [OF c2]]
  have "refs s2 q \<union> refs2 s2 q2 \<subseteq> {lim s..<lim s2}"
    using c c2 new by (auto simp: extends_def)
  then show ?case using extends_trans [OF conjunct1 [OF c] conjunct1 [OF c2]] c c2 old new
    by (simp add: p' assms(2,3,4))
qed

text \<open>The elements of a slice are copied one by one.\<close>

lemma elems: "deep_copier (copy_elems into) (elems_val val) (elems_refs refs)"
proof (unfold_locales, unfold elems_val_def elems_refs_def, goal_cases)
  case (1 s ps s')
  then have "val s' p = val s p \<and> refs s' p = refs s p" if "p \<in> set ps" for p
    using frame [of s p s'] that by blast
  then show ?case by auto
next
  case (2 s ps ps' s')
  then show ?case
  proof (induction ps arbitrary: s ps')
    case (Cons p ps)
    obtain y s1 where y: "into p s = (y, s1)" by fastforce
    obtain ys where ys: "copy_elems into ps s1 = (ys, s')" "ps' = y # ys"
      using Cons.prems(2) y by (auto split: prod.splits)
    have c: "extends s s1" "val s1 y = val s p" "refs s1 y \<subseteq> {lim s..<lim s1}"
      using copies [OF _ y] Cons.prems(1) by auto
    have old: "val s1 q = val s q \<and> refs s1 q = refs s q" if "q \<in> set ps" for q
      using frame_extends [OF _ c(1), of q] that Cons.prems(1) by auto
    have "(\<Union>p \<in> set ps. refs s1 p) \<subseteq> {..<lim s1}"
      using Cons.prems(1) c(1) old by (fastforce simp: extends_def)
    from Cons.IH [OF this ys(1)] have IH: "extends s1 s'" "map (val s') ys = map (val s1) ps"
      "(\<Union>p \<in> set ys. refs s' p) \<subseteq> {lim s1..<lim s'}" by blast+
    have "val s' y = val s1 y \<and> refs s' y = refs s1 y"
      using frame_extends [OF _ IH(1), of y] c(3) by fastforce
    with c IH old ys(2) extends_trans [OF c(1) IH(1)] show ?case
      by (auto simp: extends_def)
  qed simp
qed

end

text \<open>A pointer into one of the heaps: \<open>put\<close> writes a cell and nothing else.\<close>

locale cell_copier = deep_copier into val refs
  for into :: "'p \<Rightarrow> 'm store \<Rightarrow> 'p \<times> 'm store" and val :: "'m store \<Rightarrow> 'p \<Rightarrow> 'v"
    and refs :: "'m store \<Rightarrow> 'p \<Rightarrow> nat set" +
  fixes at :: "'m store \<Rightarrow> nat \<Rightarrow> 'p"
    and put :: "nat \<Rightarrow> 'p \<Rightarrow> 'm store \<Rightarrow> 'm store"
  assumes at_same: "same_at r s s' \<Longrightarrow> at s' r = at s r"
    and at_put: "at (put r x s) r = x"
    and put_other: "r' \<noteq> r \<Longrightarrow> same_at r' s (put r x s)"
    and lim_put: "lim (put r x s) = lim s"
begin

lemma pointer:
  "deep_copier (copy_ptr into at put) (ptr_val at val) (ptr_refs at refs)"
proof (unfold_locales, unfold ptr_val_def ptr_refs_def, goal_cases)
  case (1 s p s')
  then show ?case using frame [of s _ s'] by (auto simp: at_same split: option.splits)
next
  case (2 s p p' s')
  show ?case
  proof (cases p)
    case None
    with 2 show ?thesis by (simp add: copy_ptr_def)
  next
    case (Some r)
    let ?s = "s\<lparr>lim := Suc (lim s)\<rparr>"
    obtain x s1 where x: "into (at s r) ?s = (x, s1)" by fastforce
    have r: "p' = Some (lim s)" "s' = put (lim s) x s1" using 2(2) Some x by (auto simp: copy_ptr_def Let_def)
    have same: "same_at u s ?s" for u by (simp add: same_at_def)
    have v: "val ?s (at s r) = val s (at s r) \<and> refs ?s (at s r) = refs s (at s r)" by (rule frame) (simp add: same)
    have "refs ?s (at s r) \<subseteq> {..<lim ?s}" using 2(1) Some v by auto
    note c = copies [OF this x]
    have fresh: "refs s1 x \<subseteq> {Suc (lim s)..<lim s1}" using c by simp
    have x': "val s' x = val s1 x \<and> refs s' x = refs s1 x"
    proof (rule frame, rule ballI)
      fix u assume "u \<in> refs s1 x"
      with fresh have "u \<noteq> lim s" by auto
      then show "same_at u s1 s'" unfolding r(2) by (rule put_other)
    qed
    have "same_at u s s'" if "u < lim s" for u
      using c that put_other [of u "lim s" s1 x] by (simp add: r(2) extends_def same_at_def)
    moreover have "lim s < lim s'" using c by (simp add: r(2) extends_def lim_put)
    ultimately have "extends s s'" by (simp add: extends_def)
    moreover have "insert (lim s) (refs s' x) \<subseteq> {lim s..<lim s'}"
      using fresh x' \<open>lim s < lim s'\<close> by (auto simp: r(2) lim_put)
    ultimately show ?thesis using c x' v by (simp add: Some r at_put)
  qed
qed

end

section \<open>Every type is copied deeply\<close>

text \<open>The values that the structs stand for are those of \<open>Api_Types\<close>.\<close>

abbreviation raw_val :: "'m store \<Rightarrow> nat option \<Rightarrow> json option" where
  "raw_val \<equiv> ptr_val raws (\<lambda>s v. v)"

abbreviation raw_refs :: "'m store \<Rightarrow> nat option \<Rightarrow> nat set" where
  "raw_refs \<equiv> ptr_refs raws (\<lambda>s v. {})"

definition ActionMeta_val :: "'m store \<Rightarrow> ActionMeta_p \<Rightarrow> ActionMeta" where
  "ActionMeta_val s p = \<lparr>am_Type = amp_Type p, am_Properties = raw_val s (amp_Properties p)\<rparr>"

definition Source_val :: "'m store \<Rightarrow> Source_p \<Rightarrow> Source" where
  "Source_val s p = \<lparr>src_Type = srcp_Type p, src_Properties = raw_val s (srcp_Properties p)\<rparr>"

definition Worker_val :: "'m store \<Rightarrow> Worker_p \<Rightarrow> Worker" where
  "Worker_val s p = \<lparr>wk_Template = wkp_Template p, wk_Properties = raw_val s (wkp_Properties p)\<rparr>"

definition TriggerMeta_val :: "'m store \<Rightarrow> TriggerMeta_p \<Rightarrow> TriggerMeta" where
  "TriggerMeta_val s p =
     \<lparr>tm_Source = Source_val s (tmp_Source p), tm_Filter = tmp_Filter p, tm_Action = ActionMeta_val s (tmp_Action p)\<rparr>"

definition TriggerServiceSpec_val :: "'m store \<Rightarrow> TriggerServiceSpec_p \<Rightarrow> TriggerServiceSpec" where
  "TriggerServiceSpec_val s p =
     \<lparr>sp_Worker = ptr_val workers_at Worker_val s (spp_Worker p),
      sp_Triggers = ptr_val triggers_at (elems_val TriggerMeta_val) s (spp_Triggers p)\<rparr>"

definition TriggerService_val :: "'m store \<Rightarrow> 'm TriggerService_p \<Rightarrow> (string \<times> string) \<times> 'm \<times> TriggerServiceSpec" where
  "TriggerService_val s p = (tsp_TypeMeta p, tsp_ObjectMeta p, TriggerServiceSpec_val s (tsp_Spec p))"

definition TriggerServiceList_val ::
    "'m store \<Rightarrow> 'm TriggerServiceList_p \<Rightarrow>
      (string \<times> string) \<times> 'm \<times> ((string \<times> string) \<times> 'm \<times> TriggerServiceSpec) list option" where
  "TriggerServiceList_val s p =
     (tlp_TypeMeta p, tlp_ListMeta p, ptr_val services_at (elems_val TriggerService_val) s (tlp_Items p))"

definition Event_val :: "'m store \<Rightarrow> Event_p \<Rightarrow> EventResource \<times> time \<times> string \<times> json option" where
  "Event_val s p = (evp_Resource p, evp_Timestamp p, evp_Type p, raw_val s (evp_Data p))"

definition EventListener_val ::
    "'m store \<Rightarrow> 'm EventListener_p \<Rightarrow>
      (string \<times> string) \<times> 'm \<times> (EventResource \<times> time \<times> string \<times> json option) list option" where
  "EventListener_val s p =
     (elp_TypeMeta p, elp_ObjectMeta p, ptr_val events_at (elems_val Event_val) s (elp_Events p))"

definition EventListenerList_val ::
    "'m store \<Rightarrow> 'm EventListenerList_p \<Rightarrow> (string \<times> string) \<times> 'm \<times>
      ((string \<times> string) \<times> 'm \<times> (EventResource \<times> time \<times> string \<times> json option) list option) list option" where
  "EventListenerList_val s p =
     (ellp_TypeMeta p, ellp_ListMeta p, ptr_val listeners_at (elems_val EventListener_val) s (ellp_Items p))"

abbreviation TriggerMeta_refs :: "'m store \<Rightarrow> TriggerMeta_p \<Rightarrow> nat set" where
  "TriggerMeta_refs s p \<equiv>
     raw_refs s (srcp_Properties (tmp_Source p)) \<union> raw_refs s (amp_Properties (tmp_Action p))"

abbreviation TriggerService_refs :: "'m store \<Rightarrow> TriggerServiceSpec_p \<Rightarrow> nat set" where
  "TriggerService_refs s p \<equiv>
     ptr_refs workers_at (\<lambda>s w. raw_refs s (wkp_Properties w)) s (spp_Worker p) \<union>
     ptr_refs triggers_at (elems_refs TriggerMeta_refs) s (spp_Triggers p)"

definition TriggerServiceList_refs :: "'m store \<Rightarrow> 'm TriggerServiceList_p \<Rightarrow> nat set" where
  "TriggerServiceList_refs s p =
     ptr_refs services_at (elems_refs (\<lambda>s t. TriggerService_refs s (tsp_Spec t))) s (tlp_Items p)"

definition EventListenerList_refs :: "'m store \<Rightarrow> 'm EventListenerList_p \<Rightarrow> nat set" where
  "EventListenerList_refs s p =
     ptr_refs listeners_at
       (elems_refs (\<lambda>s l. ptr_refs events_at (elems_refs (\<lambda>s e. raw_refs s (evp_Data e))) s (elp_Events l))) s (ellp_Items p)"

text \<open>The library's copies have the value of what they copy.\<close>

locale library_copies =
  fixes L :: "'m lib_copies"
  assumes copy_raw_val: "copy_raw L v = v"
    and copy_meta_val: "copy_meta L m = m"
    and copy_time_val: "copy_time L t = t"

sublocale library_copies \<subseteq>
  raw: cell_copier "\<lambda>v s. (copy_raw L v, s)" "\<lambda>s v. v" "\<lambda>s v. {}" raws "\<lambda>r v s. s\<lparr>raws := (raws s)(r := v)\<rparr>"
  by unfold_locales (auto simp: same_at_def copy_raw_val)

sublocale library_copies \<subseteq> raw_ptr: deep_copier "RawExtension_copy L" raw_val raw_refs
  unfolding RawExtension_copy_def by (rule raw.pointer)

sublocale library_copies \<subseteq> action:
  deep_copier "ActionMeta_DeepCopyInto L" ActionMeta_val "\<lambda>s p. raw_refs s (amp_Properties p)"
  unfolding ActionMeta_DeepCopyInto_def [abs_def] ActionMeta_val_def [abs_def]
  by (rule raw_ptr.field [where mk = "\<lambda>p v. \<lparr>am_Type = amp_Type p, am_Properties = v\<rparr>"]) simp_all

sublocale library_copies \<subseteq> source:
  deep_copier "Source_DeepCopyInto L" Source_val "\<lambda>s p. raw_refs s (srcp_Properties p)"
  unfolding Source_DeepCopyInto_def [abs_def] Source_val_def [abs_def]
  by (rule raw_ptr.field [where mk = "\<lambda>p v. \<lparr>src_Type = srcp_Type p, src_Properties = v\<rparr>"]) simp_all

sublocale library_copies \<subseteq> worker:
  deep_copier "Worker_DeepCopyInto L" Worker_val "\<lambda>s p. raw_refs s (wkp_Properties p)"
  unfolding Worker_DeepCopyInto_def [abs_def] Worker_val_def [abs_def]
  by (rule raw_ptr.field [where mk = "\<lambda>p v. \<lparr>wk_Template = wkp_Template p, wk_Properties = v\<rparr>"]) simp_all

sublocale library_copies \<subseteq> trigger: deep_copier "TriggerMeta_DeepCopyInto L" TriggerMeta_val TriggerMeta_refs
  unfolding TriggerMeta_DeepCopyInto_def [abs_def] TriggerMeta_val_def [abs_def]
  by (rule source.field2 [where mk = "\<lambda>p v w. \<lparr>tm_Source = v, tm_Filter = tmp_Filter p, tm_Action = w\<rparr>"])
    (rule action.deep_copier_axioms, simp_all)

sublocale library_copies \<subseteq> worker_cell:
  cell_copier "Worker_DeepCopyInto L" Worker_val "\<lambda>s p. raw_refs s (wkp_Properties p)"
    workers_at "\<lambda>r x s. s\<lparr>workers_at := (workers_at s)(r := x)\<rparr>"
  by unfold_locales (auto simp: same_at_def)

sublocale library_copies \<subseteq> triggers_cell:
  cell_copier "copy_elems (TriggerMeta_DeepCopyInto L)" "elems_val TriggerMeta_val" "elems_refs TriggerMeta_refs"
    triggers_at "\<lambda>r xs s. s\<lparr>triggers_at := (triggers_at s)(r := xs)\<rparr>"
  by (rule cell_copier.intro [OF trigger.elems]) (unfold_locales, auto simp: same_at_def)

sublocale library_copies \<subseteq> spec:
  deep_copier "TriggerServiceSpec_DeepCopyInto L" TriggerServiceSpec_val TriggerService_refs
  unfolding TriggerServiceSpec_DeepCopyInto_def [abs_def] TriggerServiceSpec_val_def [abs_def]
  by (rule deep_copier.field2 [OF worker_cell.pointer triggers_cell.pointer, where mk = "\<lambda>p v w. \<lparr>sp_Worker = v, sp_Triggers = w\<rparr>"])
    simp_all

sublocale library_copies \<subseteq> service:
  deep_copier "TriggerService_DeepCopyInto L" TriggerService_val "\<lambda>s p. TriggerService_refs s (tsp_Spec p)"
  unfolding TriggerService_DeepCopyInto_def [abs_def] TriggerService_val_def [abs_def]
  by (rule spec.field [where mk = "\<lambda>p v. (tsp_TypeMeta p, tsp_ObjectMeta p, v)"]) (simp_all add: copy_meta_val)

sublocale library_copies \<subseteq> services_cell:
  cell_copier "copy_elems (TriggerService_DeepCopyInto L)" "elems_val TriggerService_val"
    "elems_refs (\<lambda>s p. TriggerService_refs s (tsp_Spec p))"
    services_at "\<lambda>r xs s. s\<lparr>services_at := (services_at s)(r := xs)\<rparr>"
  by (rule cell_copier.intro [OF service.elems]) (unfold_locales, auto simp: same_at_def)

sublocale library_copies \<subseteq> service_list:
  deep_copier "TriggerServiceList_DeepCopyInto L" TriggerServiceList_val TriggerServiceList_refs
  unfolding TriggerServiceList_DeepCopyInto_def [abs_def] TriggerServiceList_val_def [abs_def]
    TriggerServiceList_refs_def [abs_def]
  by (rule deep_copier.field [OF services_cell.pointer, where mk = "\<lambda>p v. (tlp_TypeMeta p, tlp_ListMeta p, v)"])
    (simp_all add: copy_meta_val)

sublocale library_copies \<subseteq> event: deep_copier "Event_DeepCopyInto L" Event_val "\<lambda>s p. raw_refs s (evp_Data p)"
  unfolding Event_DeepCopyInto_def [abs_def] Event_val_def [abs_def]
  by (rule raw_ptr.field [where mk = "\<lambda>p v. (evp_Resource p, evp_Timestamp p, evp_Type p, v)"])
    (simp_all add: copy_time_val)

sublocale library_copies \<subseteq> events_cell:
  cell_copier "copy_elems (Event_DeepCopyInto L)" "elems_val Event_val" "elems_refs (\<lambda>s p. raw_refs s (evp_Data p))"
    events_at "\<lambda>r xs s. s\<lparr>events_at := (events_at s)(r := xs)\<rparr>"
  by (rule cell_copier.intro [OF event.elems]) (unfold_locales, auto simp: same_at_def)

sublocale library_copies \<subseteq> listener:
  deep_copier "EventListener_DeepCopyInto L" EventListener_val
    "\<lambda>s p. ptr_refs events_at (elems_refs (\<lambda>s p. raw_refs s (evp_Data p))) s (elp_Events p)"
  unfolding EventListener_DeepCopyInto_def [abs_def] EventListener_val_def [abs_def]
  by (rule deep_copier.field [OF events_cell.pointer, where mk = "\<lambda>p v. (elp_TypeMeta p, elp_ObjectMeta p, v)"])
    (simp_all add: copy_meta_val)

sublocale library_copies \<subseteq> listeners_cell:
  cell_copier "copy_elems (EventListener_DeepCopyInto L)" "elems_val EventListener_val"
    "elems_refs (\<lambda>s p. ptr_refs events_at (elems_refs (\<lambda>s p. raw_refs s (evp_Data p))) s (elp_Events p))"
    listeners_at "\<lambda>r xs s. s\<lparr>listeners_at := (listeners_at s)(r := xs)\<rparr>"
  by (rule cell_copier.intro [OF listener.elems]) (unfold_locales, auto simp: same_at_def)

sublocale library_copies \<subseteq> listener_list:
  deep_copier "EventListenerList_DeepCopyInto L" EventListenerList_val EventListenerList_refs
  unfolding EventListenerList_DeepCopyInto_def [abs_def] EventListenerList_val_def [abs_def]
    EventListenerList_refs_def [abs_def]
  by (rule deep_copier.field [OF listeners_cell.pointer, where mk = "\<lambda>p v. (ellp_TypeMeta p, ellp_ListMeta p, v)"])
    (simp_all add: copy_meta_val)

context library_copies begin

lemmas service_list_copy = service_list.DeepCopy_independent
lemmas listener_list_copy = listener_list.DeepCopy_independent

end

text \<open>Copies of immutable values: the instance that the example below uses.\<close>

definition value_copies :: "'m lib_copies" where
  "value_copies = \<lparr>copy_raw = \<lambda>v. v, copy_meta = \<lambda>m. m, copy_time = \<lambda>t. t\<rparr>"

interpretation plain_values: library_copies value_copies
  by unfold_locales (simp_all add: value_copies_def)

definition demo_store :: "string store" where
  "demo_store =
     \<lparr>lim = 6, raws = (\<lambda>r. if r = 0 then JStr ''v'' else JNull), workers_at = (\<lambda>r. \<lparr>wkp_Template = ''t'', wkp_Properties = Some 0\<rparr>),
      triggers_at = (\<lambda>r. [\<lparr>tmp_Source = \<lparr>srcp_Type = ''cronjob'', srcp_Properties = Some 1\<rparr>, tmp_Filter = [],
                       tmp_Action = \<lparr>amp_Type = ''a'', amp_Properties = None\<rparr>\<rparr>]),
      services_at = (\<lambda>r. [\<lparr>tsp_TypeMeta = ([], []), tsp_ObjectMeta = ''m'',
                       tsp_Spec = \<lparr>spp_Worker = Some 2, spp_Triggers = Some 3\<rparr>\<rparr>]),
      events_at = (\<lambda>r. [\<lparr>evp_Resource = \<lparr>er_APIVersion = ''v1'', er_Kind = ''Pod'', er_Name = ''p'', er_Namespace = ''n''\<rparr>,
                     evp_Timestamp = 0, evp_Type = ''t'', evp_Data = Some 1\<rparr>]),
      listeners_at = (\<lambda>r. [\<lparr>elp_TypeMeta = ([], []), elp_ObjectMeta = ''m'', elp_Events = Some 4\<rparr>])\<rparr>"

definition demo_services :: "string TriggerServiceList_p" where
  "demo_services = \<lparr>tlp_TypeMeta = ([], []), tlp_ListMeta = ''m'', tlp_Items = Some 5\<rparr>"

definition demo_listeners :: "string EventListenerList_p" where
  "demo_listeners = \<lparr>ellp_TypeMeta = ([], []), ellp_ListMeta = ''m'', ellp_Items = Some 5\<rparr>"

lemma demo_refs:
  "TriggerServiceList_refs demo_store demo_services = {0, 1, 2, 3, 5}"
  "EventListenerList_refs demo_store demo_listeners = {1, 4, 5}" "lim demo_store = 6"
  by (auto simp: TriggerServiceList_refs_def EventListenerList_refs_def demo_store_def demo_services_def demo_listeners_def
      ptr_refs_def elems_refs_def)



end
