(* ===== verification/Process_Setup.thy ===== *)
theory Process_Setup
  imports Prelude
begin

text \<open>
  The small parts around the components: the memoised API client (\<open>pkg/util/client/client.go\<close>), the CUE
  helpers (\<open>pkg/util/cue\<close>) and the process of the manager (\<open>cmd/manager/main.go\<close>). What they call of
  controller-runtime, CUE and apimachinery are parameters.
\<close>

section \<open>The API client\<close>

text \<open>
  The library calls that make a client: the configuration of the process (the process exits when there
  is none), the registration of the types, which changes the global scheme, and the constructor.
\<close>

record ('c, 's, 'k) client_lib =
  GetConfigOrDie :: "'c option"
  AddToScheme :: "'s \<Rightarrow> string option \<times> 's"
  client_New :: "'c \<Rightarrow> 's \<Rightarrow> string + 'k"

datatype 'k get_client = Died | Failed string | Client 'k

text \<open>The state is the variable \<open>k8sClient\<close> and the scheme.\<close>

definition GetClient ::
    "('c, 's, 'k) client_lib \<Rightarrow> 'k option \<times> 's \<Rightarrow> 'k get_client \<times> ('k option \<times> 's)" where
  "GetClient L st =
     (case st of
        (Some c, sch) \<Rightarrow> (Client c, st)
      | (None, sch) \<Rightarrow>
          (case GetConfigOrDie L of
             None \<Rightarrow> (Died, st)
           | Some conf \<Rightarrow>
               (case AddToScheme L sch of
                  (Some e, sch') \<Rightarrow> (Failed e, (None, sch'))
                | (None, sch') \<Rightarrow>
                    (case client_New L conf sch' of
                       Inl e \<Rightarrow> (Failed e, (None, sch'))
                     | Inr c \<Rightarrow> (Client c, (Some c, sch'))))))"

text \<open>
  A client that was returned is returned by every later call, whatever the library would do then; after
  an error the next call tries again.
\<close>

lemma GetClient_memoised: "GetClient L st = (Client c, st') \<Longrightarrow> GetClient L' st' = (Client c, st')"
  by (cases st) (auto simp: GetClient_def split: option.splits prod.splits sum.splits)

lemma GetClient_retries: "GetClient L st = (Failed e, st') \<Longrightarrow> fst st' = None"
  by (cases st) (auto simp: GetClient_def split: option.splits prod.splits sum.splits)

section \<open>The CUE helpers\<close>

record ('v, 'n) cue_values =
  Syntax_Raw :: "'v \<Rightarrow> 'n"
  format_Node :: "'n \<Rightarrow> string + string"
  MarshalJSON :: "'v \<Rightarrow> string + string"
  cue_Compile :: "string \<Rightarrow> 'v"

definition Marshal :: "('v, 'n) cue_values \<Rightarrow> 'v \<Rightarrow> string + string" where
  "Marshal C v = format_Node C (Syntax_Raw C v)"

text \<open>
  \<open>UnMarshal\<close> takes a map by value and gives the decoder the address of its own variable. A map is a
  reference: \<open>None\<close> is nil, \<open>Some r\<close> refers to \<open>maps r\<close>. The decoder may write the map, and may set the
  variable to another map or to nil; that variable is gone when \<open>UnMarshal\<close> returns.
\<close>

type_synonym 'm map_decoder =
  "string \<Rightarrow> nat option \<Rightarrow> (nat \<Rightarrow> 'm option) \<Rightarrow> string option \<times> nat option \<times> (nat \<Rightarrow> 'm option)"

definition UnMarshal ::
    "('v, 'n) cue_values \<Rightarrow> 'm map_decoder \<Rightarrow> 'v \<Rightarrow> nat option \<Rightarrow> (nat \<Rightarrow> 'm option) \<Rightarrow>
      string option \<times> (nat \<Rightarrow> 'm option)" where
  "UnMarshal C unmarshal v dst maps =
     (case MarshalJSON C v of
        Inl e \<Rightarrow> (Some e, maps)
      | Inr jsonByte \<Rightarrow> (case unmarshal jsonByte dst maps of (err, dst', maps') \<Rightarrow> (err, maps')))"

text \<open>
  A decoder that is given nil allocates a map and leaves the others alone. Then a caller with a nil map
  sees none of what was decoded.
\<close>

lemma UnMarshal_nil:
  assumes "\<And>bytes maps err dst maps'. unmarshal bytes None maps = (err, dst, maps') \<Longrightarrow>
      (\<forall>r. maps r \<noteq> None \<longrightarrow> maps' r = maps r)"
    and "UnMarshal C unmarshal v None maps = (err, maps')" and "maps r \<noteq> None"
  shows "maps' r = maps r"
proof (cases "MarshalJSON C v")
  case (Inr b)
  with assms(2) obtain d where "unmarshal b None maps = (err, d, maps')"
    by (auto simp: UnMarshal_def split: prod.splits)
  from assms(1) [OF this] assms(3) show ?thesis by blast
qed (use assms(2) in \<open>simp add: UnMarshal_def\<close>)

text \<open>\<open>decode\<close> is \<open>json.Unmarshal\<close> into the type of the output; \<open>input\<close> is the text of the raw value.\<close>

definition ValidateAndUnMarshal ::
    "('v, 'n) cue_values \<Rightarrow> (string \<Rightarrow> 'o \<Rightarrow> string option \<times> 'o) \<Rightarrow> string \<Rightarrow> string + string \<Rightarrow> 'o \<Rightarrow> string option \<times> 'o" where
  "ValidateAndUnMarshal C decode schema input output =
     (case input of
        Inl e \<Rightarrow> (Some e, output)
      | Inr inputStr \<Rightarrow>
          (case MarshalJSON C (cue_Compile C (schema @ ''\<newline>'' @ inputStr)) of
             Inl e \<Rightarrow> (Some e, output)
           | Inr b \<Rightarrow> decode b output))"

text \<open>The output is touched only by the value of the schema and the input together.\<close>

lemma ValidateAndUnMarshal_changes:
  assumes "ValidateAndUnMarshal C decode schema input output = (err, output')" and "output' \<noteq> output"
  shows "\<exists>inputStr b. input = Inr inputStr \<and>
    MarshalJSON C (cue_Compile C (schema @ ''\<newline>'' @ inputStr)) = Inr b \<and> decode b output = (err, output')"
  using assms by (auto simp: ValidateAndUnMarshal_def split: sum.splits)

section \<open>The manager\<close>

record manager_flags =
  metricsAddr :: string
  probeAddr :: string
  manager_leader :: bool

definition manager_defaults :: manager_flags where
  "manager_defaults = \<lparr>metricsAddr = '':8080'', probeAddr = '':8081'', manager_leader = False\<rparr>"

record manager_options =
  HealthProbeBindAddress :: string
  LeaderElection :: bool
  LeaderElectionID :: string

record ('c, 'm) manager_lib =
  mgr_config :: "'c option"
  NewManager :: "'c \<Rightarrow> manager_options \<Rightarrow> string + 'm"
  SetupWithManager :: "'m \<Rightarrow> string + 'm"
  AddHealthzCheck :: "'m \<Rightarrow> string \<Rightarrow> string + 'm"
  AddReadyzCheck :: "'m \<Rightarrow> string \<Rightarrow> string + 'm"
  mgr_Start :: "'m \<Rightarrow> string option"

text \<open>The process ends with an exit code and what it logged; \<open>or_exit\<close> is the check after every call.\<close>

definition or_exit :: "string list \<Rightarrow> string \<Rightarrow> string + 'm \<Rightarrow> ('m \<Rightarrow> nat \<times> string list) \<Rightarrow> nat \<times> string list" where
  "or_exit log msg r k = (case r of Inl e \<Rightarrow> (1, log @ [msg]) | Inr m \<Rightarrow> k m)"

definition manager_main :: "('c, 'm) manager_lib \<Rightarrow> manager_flags \<Rightarrow> nat \<times> string list" where
  "manager_main L f =
     (case mgr_config L of
        None \<Rightarrow> (1, [])
      | Some conf \<Rightarrow>
          or_exit [] ''unable to start manager''
            (NewManager L conf \<lparr>HealthProbeBindAddress = probeAddr f, LeaderElection = manager_leader f,
               LeaderElectionID = ''f3cd865e.oam.dev''\<rparr>) (\<lambda>m.
          or_exit [] ''unable to create controller'' (SetupWithManager L m) (\<lambda>m.
          or_exit [] ''unable to set up health check'' (AddHealthzCheck L m ''healthz'') (\<lambda>m.
          or_exit [] ''unable to set up ready check'' (AddReadyzCheck L m ''readyz'') (\<lambda>m.
          case mgr_Start L m of
            Some e \<Rightarrow> (1, [''starting manager'', ''problem running manager''])
          | None \<Rightarrow> (0, [''starting manager'']))))))"

text \<open>
  The manager is started only after the controller and both checks were set up, and the process ends
  with code 0 only if it was started.
\<close>

lemma manager_started:
  assumes "''starting manager'' \<in> set (snd (manager_main L f)) \<or> fst (manager_main L f) = 0"
  shows "\<exists>conf m m1 m2 m3 opts. mgr_config L = Some conf \<and> NewManager L conf opts = Inr m \<and>
    SetupWithManager L m = Inr m1 \<and> AddHealthzCheck L m1 ''healthz'' = Inr m2 \<and>
    AddReadyzCheck L m2 ''readyz'' = Inr m3 \<and> (fst (manager_main L f) = 0 \<longleftrightarrow> mgr_Start L m3 = None)"
  using assms by (auto simp: manager_main_def or_exit_def split: option.splits sum.splits)

text \<open>The address of the metrics is read from the flag and not given to the manager.\<close>

lemma metrics_address_unused: "manager_main L (f\<lparr>metricsAddr := a\<rparr>) = manager_main L f"
  by (simp add: manager_main_def split: option.splits)

end
