(* ===== verification/Spec2Isabelle.thy ===== *)
theory Spec2Isabelle
  imports Queue_Refinement Queue_Properties Delaying_Properties Rate_Properties Indexer_Properties Parallelizer
    Executor_Properties Watcher_Keys Runner Reconciler Deep_Copy Process_Setup
begin

text \<open>
  \<^bold>\<open>kube-trigger.\<close> The program watches sources (resources of a Kubernetes cluster, cron schedules),
  filters their events and runs actions for them. A custom resource \<open>TriggerService\<close> describes the
  triggers; a controller writes it into a config map and creates a worker, and the worker is the
  command that this development is mostly about: it loads the configuration, starts the sources, and
  hands a job to its executor for every event that passes the filter. Underneath is the package
  \<open>pkg/workqueue\<close>, a family of work queues; the resource controllers use its rate limiting queue. The
  executor uses the queue of client-go.

  \<^bold>\<open>Parts.\<close> Paths are relative to the source directory; state is passed explicitly, a struct is a record,
  a fallible call returns a sum, an option or \<open>result\<close> (whose \<open>Panic\<close> is a Go panic).

  \<^item> \<open>Prelude\<close>: results, 64-bit integers and time, shared lemmas on lists, maps and cardinalities.
    \<open>Go_Float\<close>, \<open>Go_Heap\<close>, \<open>Go_Strings\<close>, \<open>Go_Json\<close>, \<open>Go_Json_Text\<close>: what the sources use of Go's
    standard library, namely float64 arithmetic, \<open>container/heap\<close> on an abstract container (locale
    \<open>array_heap\<close>), strings and paths, the filling of structs from JSON values, and the text of JSON with
    its scanner and parser; \<open>parse_render\<close> shows that reading what was written gives the value back.
  \<^item> \<open>Metrics\<close>, \<open>Queue\<close>, \<open>Queue_Threads\<close>, \<open>Queue_Properties\<close>: \<open>pkg/workqueue/metrics.go\<close>, \<open>queue.go\<close>. A
    method under its lock is one function; threads parked on the condition variable, and the separate
    critical sections of \<open>ShutDownWithDrain\<close>, are a step relation. Safety, wake-ups, order, draining.
  \<^item> \<open>Queue_Interface\<close>: the contracts of a work queue (locale \<open>work_queue\<close>), of a queue that embeds one
    (\<open>embedded_queue\<close>), of retry counters and rate limited queues. They are interpreted on the queue, the
    delaying queue, the limiters and the rate limiting queue of the repository. \<open>Queue_Refinement\<close>: every
    client of the contract sees an abstract queue, a list of waiting items, a set in process and the
    items to be queued again; so all three queues refine what \<open>doc.go\<close> promises.
  \<^item> \<open>Wait_Heap\<close>, \<open>Waiting_Loop\<close>, \<open>Delaying_Queue\<close>, \<open>Delaying_Properties\<close>: \<open>delaying_queue.go\<close>. The
    priority queue works on an explicit memory, because heap and index map share their entries; the
    waiting loop runs beside concurrent callers of \<open>AddAfter\<close>. An item is not handed over early, not
    lost, and can always be delivered; \<open>insert\<close> refines the update of a map to the sooner time.
  \<^item> \<open>Rate_Limiters\<close>, \<open>Rate_Limiting_Queue\<close>, \<open>Rate_Properties\<close>: \<open>default_rate_limiters.go\<close>,
    \<open>rate_limiting_queue.go\<close>. The values of the back-off, its overflow, the counting of requeues.
  \<^item> \<open>Indexer_Queue\<close>, \<open>Indexer_Properties\<close>: \<open>indexer_delaying_queue.go\<close>. Lookups are safe in reachable
    states; an item can starve, and the depth metric drifts.
  \<^item> \<open>Parallelizer\<close>: \<open>parallelizer.go\<close>. Every piece is processed once, the goroutines end; overflow of the
    chunk count.
  \<^item> \<open>Executor\<close>, \<open>Executor_Properties\<close>: \<open>pkg/executor/executor.go\<close>. Workers are program counters in
    \<open>runJob\<close>; client-go's queue is a parameter with the contract \<open>executor_queue\<close>, which the rate limiting
    queue of the repository is shown to meet. No
    job is held by two workers, requeues are bounded, workers stop; jobs with one id race.
  \<^item> \<open>Api_Types\<close>, \<open>Event_Filter\<close>, \<open>Action_Job\<close>, \<open>Event_Handler\<close>: \<open>api/v1alpha1\<close>, \<open>pkg/filter\<close>,
    \<open>pkg/action\<close>, \<open>pkg/eventhandler\<close>. From an event to a job.
  \<^item> \<open>Watcher_Types\<close>, \<open>Watcher_Keys\<close>, \<open>Resource_Controller\<close>, \<open>Resource_Watcher\<close>:
    \<open>pkg/source/builtin/k8sresourcewatcher\<close>. The merging of triggers, the key under which they are merged
    (equal exactly for the same resources), the clients of a cluster, the controller on its rate limiting
    queue, the worker loop and its life. \<open>Cronjob\<close>: \<open>pkg/source/builtin/cronjob\<close>. \<open>Source_Registry\<close>:
    \<open>pkg/source/types\<close>, \<open>pkg/source/registry\<close>.
  \<^item> \<open>Config_Parser\<close>, \<open>Command\<close>, \<open>Runner\<close>: \<open>pkg/config\<close>, \<open>pkg/cmd\<close>. Loading and validating, options and
    flags, \<open>run\<close>, and the goroutines of the process with the leader election.
  \<^item> \<open>Reconciler\<close>: \<open>controllers\<close>. The whole reconciliation over an abstract API server.
  \<^item> \<open>Deep_Copy\<close>: \<open>api/v1alpha1/zz_generated.deepcopy.go\<close> and the types of event listeners. Structs with
    their pointers, on a store of addresses; locale \<open>deep_copier\<close> is what a copy promises, and every type
    is shown to keep it from the copies of its fields: equal in value, disjoint in addresses.
  \<^item> \<open>Process_Setup\<close>: \<open>pkg/util/client\<close>, \<open>pkg/util/cue\<close>, \<open>cmd/manager\<close>. The memoised client, the CUE
    helpers, the process of the manager up to its exit code.
  \<^item> This theory has the properties that span components: an event of the informer becomes a job of the
    executor, and after a reconciliation the worker loads the specification of the service.

  \<^bold>\<open>Atomicity, bounds and fuel.\<close> A critical section is one step; everything between two of them can be
  interleaved with other threads. The standard library's heap loops are total functions with their
  termination proofs. \<open>runWorker\<close> has fuel, and \<open>events_delivered_once\<close> shows that one unit more than
  there are queued events is enough. The nesting limit of the JSON parser is Go's own. Integers are
  unbounded where the code cannot overflow and wrapped to 64 bits where it can (time arithmetic,
  back-off, chunk counts). Go maps that are iterated are association lists, in one order of iteration.

  \<^bold>\<open>Parameters.\<close> Third-party code is an argument of the definitions that use it: the token bucket, the CUE
  evaluator and formatter, YAML, the structure hash, the cron parser, the template loader, the
  informer, API clients and the API server, the calls of controller-runtime, the queue and the elector of
  client-go, the copies of library types, the file system, the log level parser. Where a property
  needs their documented behaviour it is a hypothesis, and its witness instantiates it.

  \<^bold>\<open>Not modelled.\<close> The registration of API types with the scheme of apimachinery, the parsing of the
  manager's arguments and its logger, the version command, log output, and the contents of error messages beyond what tells errors apart:
  what is left of the sources is declarations, imports and comments, or calls into libraries that are
  not part of the repository. JSON strings are lists of bytes that are copied outside the
  ASCII range, so the replacement of invalid UTF-8 is left out, and Unicode case folding of member
  names is restricted to ASCII letters.
\<close>

section \<open>From an event to a job\<close>

text \<open>The handler that \<open>run\<close> makes for a trigger, as the resource watcher calls it.\<close>

definition trigger_handler ::
    "('f, 'x, 'v, (Event + cron_Event, 'o + cron_Event) event_context) cue_api \<Rightarrow> (string \<Rightarrow> string + string) \<Rightarrow>
      (ActionMeta \<Rightarrow> string + 64 word) \<Rightarrow> (nat, 'q) jobQueue \<Rightarrow> string \<Rightarrow> TriggerMeta \<Rightarrow>
      ('o, ('q, (Event + cron_Event, 'o + cron_Event) event_context) job_world) any_handler" where
  "trigger_handler cue load hash Q now w = NewFromConfig cue load hash Q now (tm_Action w) (tm_Filter w)"

lemma NewFromConfig_effect:
  assumes "executor_queue Q stopping ready running again invar" and "invar (e_queue (exe w))"
    and "fst (ApplyFilter cue \<lparr>ctx_sourceType = st, ctx_event = e, ctx_data = d, ctx_timestamp = now\<rparr> filt)"
    and "load (am_Type meta) = Inr tmpl" and "hash meta = Inr h"
  shows "\<exists>err w'. NewFromConfig cue load hash Q now meta filt st e d w = (err, w') \<and>
    (if int (jq_Len Q (e_queue (exe w))) < maxQueueSize (exe w)
     then err = None \<and> (\<exists>j. jobs w' = jobs w @ [j] \<and> hex_value (jid j) = unat h) \<and>
       (stopping (e_queue (exe w)) \<or> length (jobs w) \<in> set (ready (e_queue (exe w'))) \<union> again (e_queue (exe w')))
     else err \<noteq> None \<and> exe w' = exe w)"
proof -
  let ?c = "\<lparr>ctx_sourceType = st, ctx_event = e, ctx_data = d, ctx_timestamp = now\<rparr>"
  obtain j where j: "action_New load hash meta ?c = Inr j" "hex_value (jid j) = unat h"
    using assms(4,5) by (simp add: action_New_def computeHash_def hex_round_trip)
  obtain ferr where f: "ApplyFilter cue ?c filt = (True, ferr)" using assms(3) by (metis (full_types) prod.collapse)
  let ?jm = "job_methods (jobs w @ [j])"
  have n: "\<not> isNil ?jm (length (jobs w))" by (simp add: job_methods_def)
  note A = executor_queue.AddJob_effect [OF assms(1,2) n]
  have *: "NewFromConfig cue load hash Q now meta filt st e d w =
      (case AddJob Q ?jm (length (jobs w)) (exe w) of
         (AddJobOk, e') \<Rightarrow> (None, w\<lparr>exe := e', jobs := jobs w @ [j]\<rparr>)
       | (AddJobErr err, e') \<Rightarrow> (Some ''queue size full'', w\<lparr>exe := e', jobs := jobs w @ [j]\<rparr>)
       | (AddJobPanic, e') \<Rightarrow> (Some ''panic'', w\<lparr>exe := e', jobs := jobs w @ [j]\<rparr>))"
    using f j(1) by (simp add: NewFromConfig_def Let_def)
  show ?thesis
  proof (cases "int (jq_Len Q (e_queue (exe w))) < maxQueueSize (exe w)")
    case True
    with A obtain e' where "AddJob Q ?jm (length (jobs w)) (exe w) = (AddJobOk, e')"
      "stopping (e_queue (exe w)) \<or> length (jobs w) \<in> set (ready (e_queue e')) \<or> length (jobs w) \<in> again (e_queue e')"
      by auto
    with True j(2) show ?thesis by (simp add: *)
  next
    case False
    with A show ?thesis by (simp add: *)
  qed
qed

text \<open>
  C1. From the informer to the executor: the worker of the controller takes a wanted event that the
  trigger's filter keeps out of its queue, and the event becomes a new job that waits in the
  executor's queue, with an id that depends on the action of the trigger only; if that queue is
  full, the event is gone all the same, and the executor is as before.
\<close>

theorem event_becomes_job:
  assumes "executor_queue Q stopping ready running again invar" and "invar (e_queue (exe w))"
    and "rl_inv (c_queue c)" and "queue (base c) = [ev]" and "EventObj ev = APIObject obj"
    and "wanted created start c (ie_Event ev) obj"
    and "eventHandlers c = [\<lambda>t e d. trigger_handler cue load hash Q now tm t (Inl e) (Inl d)]"
    and "fst (ApplyFilter cue \<lparr>ctx_sourceType = controllerType c, ctx_event = Inl (ie_Event ev),
        ctx_data = Inl obj, ctx_timestamp = now\<rparr> (tm_Filter tm))"
    and "load (am_Type (tm_Action tm)) = Inr tmpl" and "hash (tm_Action tm) = Inr h"
  shows "\<exists>r c' w'. runWorker 2 cvt reserve t pick created start c w = Some (r, c', w') \<and>
    queue (base c') = [] \<and>
    (if int (jq_Len Q (e_queue (exe w))) < maxQueueSize (exe w)
     then (\<exists>j. jobs w' = jobs w @ [j] \<and> hex_value (jid j) = unat h) \<and>
       (stopping (e_queue (exe w)) \<or> length (jobs w) \<in> set (ready (e_queue (exe w'))) \<union> again (e_queue (exe w')))
     else exe w' = exe w)"
proof -
  let ?w = "snd (NewFromConfig cue load hash Q now (tm_Action tm) (tm_Filter tm) (controllerType c)
    (Inl (ie_Event ev)) (Inl obj) w)"
  have "deliver c (deliveries created start c (queue (base c))) w = ?w"
    using assms(4-7) by (simp add: deliver_def callEventHandler_def trigger_handler_def split: prod.splits)
  moreover obtain c' where "runWorker 2 cvt reserve t pick created start c w =
      Some (if ShuttingDown (base c) then NextQuit else NextBlocked, c',
        deliver c (deliveries created start c (queue (base c))) w)" "queue (base c') = []"
    using runWorker_drains [OF assms(3), of 2 cvt reserve t pick created start w] assms(4,5) by auto
  ultimately show ?thesis
    using NewFromConfig_effect [where w = w and load = load and hash = hash and meta = "tm_Action tm",
      OF assms(1,2,8,9,10)]
    by fastforce
qed

text \<open>A trigger without filter, a queued update, and the executor of the runs above.\<close>

definition demo_trigger :: TriggerMeta where
  "demo_trigger = \<lparr>tm_Source = \<lparr>src_Type = SourceTypeResourceWatcher, src_Properties = None\<rparr>, tm_Filter = '''',
     tm_Action = \<lparr>am_Type = ''log'', am_Properties = None\<rparr>\<rparr>"

definition demo_cue :: "(unit, unit, unit, 'c) cue_api" where
  "demo_cue = \<lparr>ParseFile = \<lambda>s. Inr (), fixFile = \<lambda>f. f, importsNil = \<lambda>f. True, Decls = \<lambda>f. [],
     isImportDecl = \<lambda>d. False, formatNode = \<lambda>ds. Inr '''', CompileString = \<lambda>t c. Inr (),
     valErr = \<lambda>v. None, LookupPath = \<lambda>v p. v, Exists = \<lambda>v. False, Bool = \<lambda>v. Inr True\<rparr>"

type_synonym demo_jobs = "((nat, unit) rateLimitingType, (Event + cron_Event, nat + cron_Event) event_context) job_world"

definition demo_handler :: "(Event, nat, demo_jobs) EventHandler" where
  "demo_handler = (\<lambda>t e d. trigger_handler demo_cue Inr (\<lambda>m. Inr 255) demo_queue ''now'' demo_trigger t (Inl e) (Inl d))"

definition demo_event :: "nat InformerEvent" where
  "demo_event = \<lparr>ie_Event = \<lparr>ev_Type = ''update'', ev_Cluster = ''local''\<rparr>, EventObj = APIObject 7\<rparr>"

definition demo_controller :: "(nat, unit, demo_jobs) Controller" where
  "demo_controller = (newResourceController \<lparr>data = demo_event, readyAt = 0, index = 0\<rparr> () ''local'')
     \<lparr>eventHandlers := [demo_handler]\<rparr>"

definition demo_queued :: "(nat, unit, demo_jobs) Controller" where
  "demo_queued = demo_controller\<lparr>c_queue := rl_Add 0 demo_event (c_queue demo_controller)\<rparr>"

definition demo_world :: demo_jobs where
  "demo_world = \<lparr>exe = xe demo_start, jobs = []\<rparr>"

theorem event_becomes_job_witness:
  "\<exists>r c' w' j. runWorker 2 (\<lambda>f. 0) (\<lambda>b. (0, b)) 0 True (\<lambda>obj. 0) 0 demo_queued demo_world = Some (r, c', w') \<and>
    jobs w' = [j] \<and> hex_value (jid j) = 255"
proof -
  have inv: "rl_inv (e_queue (exe demo_world))"
    using demo_fresh by (simp add: demo_world_def demo_start_eq fresh_queue_def)
  have cinv: "rl_inv (c_queue demo_queued)"
    by (simp add: demo_queued_def demo_controller_def) (intro rlq.promoted.invar_add new_controller_inv)
  have q: "queue (base demo_queued) = [demo_event]"
    by (simp add: demo_queued_def demo_controller_def newResourceController_def op_defs)
  have f: "fst (ApplyFilter demo_cue c (tm_Filter demo_trigger))" for c :: "(Event + cron_Event, nat + cron_Event) event_context"
    by (simp add: ApplyFilter_def BuildFilterTemplate_def demo_cue_def)
  have h: "eventHandlers demo_queued = [\<lambda>t e d. trigger_handler demo_cue Inr (\<lambda>m. Inr 255) demo_queue ''now''
      demo_trigger t (Inl e) (Inl d)]"
    by (simp add: demo_queued_def demo_controller_def demo_handler_def)
  have w: "wanted (\<lambda>obj. 0) 0 demo_queued (ie_Event demo_event) 7"
    by (simp add: wanted_def demo_queued_def demo_controller_def newResourceController_def demo_event_def
        EventTypeCreate_def)
  have "jq_Len demo_queue (e_queue (exe demo_world)) = 0" "maxQueueSize (exe demo_world) = 50" "jobs demo_world = []"
    by (simp_all add: demo_world_def demo_start_eq demo_eval)
  moreover have "EventObj demo_event = APIObject 7" by (simp add: demo_event_def)
  moreover have "unat (255 :: 64 word) = 255" by simp
  ultimately show ?thesis
    using event_becomes_job [where load = Inr and hash = "\<lambda>m. Inr 255" and w = demo_world and tm = demo_trigger
      and created = "\<lambda>obj. 0" and start = 0, OF demo_contract inv cinv q _ w h f, of "am_Type (tm_Action demo_trigger)"
      255 "\<lambda>f. 0" "\<lambda>b. (0, b)" 0 True]
    by (simp del: runWorker.simps) blast
qed

section \<open>From a custom resource to the configuration of its worker\<close>

text \<open>A raw value that is \<open>null\<close> is decoded as no value; a decoder never produces one.\<close>

definition no_null :: "TriggerMeta \<Rightarrow> bool" where
  "no_null t \<longleftrightarrow> src_Properties (tm_Source t) \<noteq> Some JNull \<and> am_Properties (tm_Action t) \<noteq> Some JNull"

lemma decode_raw_json: "p \<noteq> Some JNull \<Longrightarrow> decode_raw (raw_json p) = p"
  by (cases p; cases "the p") (auto simp: raw_json_def)

lemma decode_raw_Some: "v \<noteq> JNull \<Longrightarrow> decode_raw v = Some v"
  by (cases v) auto

lemma field_names:
  "is_field ''type'' ''type''" "is_field ''properties'' ''properties''" "\<not> is_field ''type'' ''properties''"
  "is_field ''source'' ''source''" "is_field ''filter'' ''filter''" "is_field ''action'' ''action''"
  "\<not> is_field ''source'' ''filter''" "\<not> is_field ''source'' ''action''" "\<not> is_field ''filter'' ''action''"
  "is_field ''triggers'' ''triggers''" "\<not> is_field ''triggers'' ''worker''"
  by code_simp+

lemma trigger_round_trip:
  assumes "no_null t"
  shows "decode_struct trigger_member (trigger_json t) zero_TriggerMeta = Ok t"
proof -
  have "decode_struct source_member (source_json s) z = Ok s"
    if "src_Properties s \<noteq> Some JNull" for s z :: Source
    using that by (simp add: source_json_def source_member_def field_names decode_raw_json)
  moreover have "decode_struct action_member (action_json a) \<lparr>am_Type = '''', am_Properties = None\<rparr> = Ok a"
    if "am_Properties a \<noteq> Some JNull" for a
    using that by (auto simp: action_json_def action_member_def omit_nil_def field_names decode_raw_Some
        split: option.splits)
  ultimately show ?thesis
    using assms by (simp add: trigger_json_def trigger_member_def omit_empty_def field_names no_null_def
        zero_TriggerMeta_def)
qed

lemma triggers_round_trip: "\<forall>t \<in> set ts. no_null t \<Longrightarrow> decode_triggers (map trigger_json ts) = Ok ts"
  by (induction ts) (simp_all add: trigger_round_trip)

lemma spec_round_trip:
  assumes "\<forall>ts. sp_Triggers spec = Some ts \<longrightarrow> (\<forall>t \<in> set ts. no_null t)"
  shows "config_decode (spec_json spec) = Inr \<lparr>Triggers = (case sp_Triggers spec of None \<Rightarrow> [] | Some ts \<Rightarrow> ts)\<rparr>"
  using assms
  by (cases "sp_Worker spec"; cases "sp_Triggers spec")
    (simp_all add: config_decode_def spec_json_def omit_nil_def config_member_def field_names triggers_round_trip)

definition loadable :: "formats \<Rightarrow> string \<Rightarrow> string \<Rightarrow> bool" where
  "loadable fm dir f \<longleftrightarrow> parsers fm (file_ext (path_join dir f)) \<noteq> None"

lemma loadable_json: "loadable fm dir (name @ ''.json'')"
proof -
  obtain p where "path_join dir (name @ ''.json'') = p @ ''.json''"
    using path_join_suffix [of "''.json''" dir name] by auto
  then show ?thesis by (simp add: loadable_def file_ext_def Let_def parsers_def)
qed

lemma load_files_skip:
  "load_files fs fm files c = load_files fs fm (filter (\<lambda>f. parsers fm (file_ext f) \<noteq> None) files) c"
  by (induction files arbitrary: c) (auto simp: parseFromFile_def split: sum.splits config_error.splits)

text \<open>
  The directory may have other entries, such as the links and directories of a mounted volume, as
  long as none of them has an extension that the loader reads.
\<close>

lemma directory_loads_spec:
  assumes "fs_isDir fs dir = Inr True" and "fs_readDir fs dir = Inr entries"
    and "filter (\<lambda>(f, isdir). \<not> isdir \<and> parsers fm (file_ext (path_join dir f)) \<noteq> None) entries = [(name @ ''.json'', False)]"
    and "fs_readFile fs (path_join dir (name @ ''.json'')) = Inr (render (spec_json spec))"
    and "json_ok (spec_json spec)" and "depth (spec_json spec) \<le> maxNestingDepth"
    and "\<forall>ts. sp_Triggers spec = Some ts \<longrightarrow> (\<forall>t \<in> set ts. no_null t)"
  shows "NewFromFileOrDir fs fm dir = Inr \<lparr>Triggers = (case sp_Triggers spec of None \<Rightarrow> [] | Some ts \<Rightarrow> ts)\<rparr>"
proof -
  let ?files = "map (\<lambda>(f, isdir). path_join dir f) (filter (\<lambda>(f, isdir). \<not> isdir) entries)"
  have "filter (\<lambda>f. parsers fm (file_ext f) \<noteq> None) ?files =
      map (\<lambda>(f, isdir). path_join dir f)
        (filter (\<lambda>(f, isdir). \<not> isdir \<and> parsers fm (file_ext (path_join dir f)) \<noteq> None) entries)"
    by (induction entries) auto
  then have files: "filter (\<lambda>f. parsers fm (file_ext f) \<noteq> None) ?files = [path_join dir (name @ ''.json'')]"
    unfolding assms(3) by simp
  obtain p where p: "path_join dir (name @ ''.json'') = p @ ''.json''"
    using path_join_suffix [of "''.json''" dir name] by auto
  have "file_ext (path_join dir (name @ ''.json'')) = ''.json''" unfolding p by (simp add: file_ext_def Let_def)
  then have "parseFromFile fs fm (path_join dir (name @ ''.json'')) =
      Inr \<lparr>Triggers = (case sp_Triggers spec of None \<Rightarrow> [] | Some ts \<Rightarrow> ts)\<rparr>"
    using assms(4) parse_render [OF assms(5,6)] spec_round_trip [OF assms(7)]
    by (simp add: parseFromFile_def parsers_def jsonParser_def config_Unmarshal_def)
  then show ?thesis
    using assms(1,2) load_files_skip [of fs fm ?files] unfolding files
    by (simp add: NewFromFileOrDir_def findFilesInDir_def)
qed

text \<open>
  A config map mounted as a directory: each key is a file with its value. What else the volume puts
  there has no extension that the loader reads.
\<close>

definition mounted :: "formats \<Rightarrow> file_system \<Rightarrow> string \<Rightarrow> (string \<times> string) list \<Rightarrow> bool" where
  "mounted fm fs dir d \<longleftrightarrow> fs_isDir fs dir = Inr True \<and>
     (\<exists>entries. fs_readDir fs dir = Inr entries \<and> distinct entries \<and>
       {(f, isdir) \<in> set entries. \<not> isdir \<and> loadable fm dir f} = {(f, False) | f. f \<in> dom (map_of d) \<and> loadable fm dir f}) \<and>
     (\<forall>f v. map_of d f = Some v \<longrightarrow> fs_readFile fs (path_join dir f) = Inr v)"

lemma distinct_singleton: "distinct xs \<Longrightarrow> set xs = {x} \<Longrightarrow> xs = [x]"
  by (cases xs; cases "tl xs") auto

lemma mounted_single:
  assumes "mounted fm fs dir d" and "map_of d (name @ ''.json'') = Some v"
    and "\<And>f. f \<in> dom (map_of d) \<Longrightarrow> loadable fm dir f \<Longrightarrow> f = name @ ''.json''"
  shows "\<exists>entries. fs_isDir fs dir = Inr True \<and> fs_readDir fs dir = Inr entries \<and>
    filter (\<lambda>(f, isdir). \<not> isdir \<and> loadable fm dir f) entries = [(name @ ''.json'', False)] \<and>
    fs_readFile fs (path_join dir (name @ ''.json'')) = Inr v"
proof -
  obtain entries where e: "fs_isDir fs dir = Inr True" "fs_readDir fs dir = Inr entries" "distinct entries"
    "{(f, isdir) \<in> set entries. \<not> isdir \<and> loadable fm dir f} = {(f, False) | f. f \<in> dom (map_of d) \<and> loadable fm dir f}"
    "fs_readFile fs (path_join dir (name @ ''.json'')) = Inr v"
    using assms(1,2) unfolding mounted_def by auto
  have "f \<in> dom (map_of d) \<and> loadable fm dir f \<longleftrightarrow> f = name @ ''.json''" for f
    using assms(2,3) loadable_json by (metis domI)
  with e(4) have "{(f, isdir) \<in> set entries. \<not> isdir \<and> loadable fm dir f} = {(name @ ''.json'', False)}" by simp
  moreover have "set (filter (\<lambda>(f, isdir). \<not> isdir \<and> loadable fm dir f) entries) =
      {(f, isdir) \<in> set entries. \<not> isdir \<and> loadable fm dir f}" by auto
  ultimately have "set (filter (\<lambda>(f, isdir). \<not> isdir \<and> loadable fm dir f) entries) = {(name @ ''.json'', False)}" by simp
  from distinct_singleton [OF distinct_filter [OF e(3)] this] e show ?thesis by simp
qed

text \<open>
  C2. What the reconciler writes is what the worker reads. When a live service has been reconciled
  without an error and its config map is mounted as the configuration directory, loading the directory
  returns the triggers of the service's specification, in their order, without loss: the text that
  was marshalled is scanned, parsed and decoded to the values it was made of. The config map may have
  held an older specification, and other keys that the loader does not read.
\<close>

theorem spec_reaches_worker:
  assumes "config_maps_stored K" and "k_getTS K (ns, name) k = Inr ts"
    and "ts_Namespace ts = ns" and "ts_Name ts = name" and "ts_DeletionTimestamp ts = None"
    and "Reconcile K load compile (ns, name) k = (None, k')"
    and "\<forall>cm d f. k_getCM K (ns, name) k = Inr cm \<longrightarrow> cm_Data cm = Some d \<longrightarrow> f \<in> dom (map_of d) \<longrightarrow>
      loadable fm dir f \<longrightarrow> f = name @ ''.json''"
    and "\<forall>cm d. k_getCM K (ns, name) k' = Inr cm \<longrightarrow> cm_Data cm = Some d \<longrightarrow> mounted fm fs dir d"
    and "json_ok (spec_json (ts_Spec ts))" and "depth (spec_json (ts_Spec ts)) \<le> maxNestingDepth"
    and "\<forall>trs. sp_Triggers (ts_Spec ts) = Some trs \<longrightarrow> (\<forall>t \<in> set trs. no_null t)"
  shows "NewFromFileOrDir fs fm dir = Inr \<lparr>Triggers = (case sp_Triggers (ts_Spec ts) of None \<Rightarrow> [] | Some trs \<Rightarrow> trs)\<rparr>"
proof -
  obtain k1 where k1: "handleTriggerConfig K ts k = (None, k1)" "\<forall>n. k_getCM K n k' = k_getCM K n k1"
    using Reconcile_cm [OF assms(1,2,5,6)] by blast
  then have old: "cm_Data cm0 \<noteq> None" if "k_getCM K (ns, name) k = Inr cm0" for cm0
    using that assms(3,4) by (auto simp: handleTriggerConfig_def Let_def split: option.splits)
  obtain cm d where cm: "k_getCM K (ns, name) k' = Inr cm" "cm_Data cm = Some d"
    and d: "map_of d = (case k_getCM K (ns, name) k of Inr cm0 \<Rightarrow> map_of (the (cm_Data cm0)) | Inl e \<Rightarrow> Map.empty)
      (name @ ''.json'' \<mapsto> render (spec_json (ts_Spec ts)))"
    using handleTriggerConfig_cm [OF assms(1) k1(1)] k1(2) assms(3,4) by auto
  have "f = name @ ''.json''" if "f \<in> dom (map_of d)" "loadable fm dir f" for f
  proof (cases "k_getCM K (ns, name) k")
    case (Inl e)
    with that d show ?thesis by (simp split: if_splits)
  next
    case (Inr cm0)
    with old obtain d0 where "cm_Data cm0 = Some d0" by auto
    with Inr that d assms(7) [rule_format, OF Inr, of d0 f] show ?thesis by (auto split: if_splits)
  qed
  moreover have "map_of d (name @ ''.json'') = Some (render (spec_json (ts_Spec ts)))" by (simp add: d)
  ultimately obtain entries where "fs_isDir fs dir = Inr True" "fs_readDir fs dir = Inr entries"
    "filter (\<lambda>(f, isdir). \<not> isdir \<and> loadable fm dir f) entries = [(name @ ''.json'', False)]"
    "fs_readFile fs (path_join dir (name @ ''.json'')) = Inr (render (spec_json (ts_Spec ts)))"
    using mounted_single [OF assms(8) [rule_format, OF cm]] by blast
  then show ?thesis unfolding loadable_def by (rule directory_loads_spec [OF _ _ _ _ assms(9-11)])
qed

definition demo_spec :: TriggerServiceSpec where
  "demo_spec = \<lparr>sp_Worker = None, sp_Triggers = Some [cron_trigger ''@hourly'', demo_trigger]\<rparr>"

definition demo_kube :: "(nsname \<rightharpoonup> ConfigMap, unit, unit) kube" where
  "demo_kube = demo_server\<lparr>k_getTS := \<lambda>n k. Inr (demo_service\<lparr>ts_Spec := demo_spec\<rparr>)\<rparr>"

definition demo_mount :: file_system where
  "demo_mount = \<lparr>fs_isDir = \<lambda>p. Inr True,
     fs_readDir = \<lambda>p. Inr [(''..2024'', True), (''..data'', False), (''t.json'', False)],
     fs_readFile = \<lambda>p. if p = ''/etc/config/t.json'' then Inr (render (spec_json demo_spec)) else Inl ''no such file''\<rparr>"

definition demo_formats :: formats where
  "demo_formats = \<lparr>cue_to_json = \<lambda>s. Inl ''cue'', yaml_to_json = \<lambda>s. Inl ''yaml''\<rparr>"

lemma demo_mounted:
  assumes "map_of d = [''t.json'' \<mapsto> render (spec_json demo_spec)]"
  shows "mounted demo_formats demo_mount ''/etc/config/'' d"
proof -
  have p: "path_join ''/etc/config/'' ''t.json'' = ''/etc/config/t.json''" by code_simp
  have "\<not> loadable demo_formats ''/etc/config/'' ''..data''" "loadable demo_formats ''/etc/config/'' ''t.json''"
    by code_simp+
  then have "{(f, isdir) \<in> set [(''..2024'', True), (''..data'', False), (''t.json'', False)].
      \<not> isdir \<and> loadable demo_formats ''/etc/config/'' f} =
      {(f, False) | f. f \<in> dom (map_of d) \<and> loadable demo_formats ''/etc/config/'' f}"
    by (auto simp: assms)
  then show ?thesis by (simp add: mounted_def demo_mount_def assms p)
qed

theorem spec_reaches_worker_witness:
  "\<exists>k'. Reconcile demo_kube (\<lambda>t. Inl NotFound) (\<lambda>t n p. Inl NotFound) (''ns'', ''t'') Map.empty = (None, k') \<and>
    NewFromFileOrDir demo_mount demo_formats ''/etc/config/'' =
      Inr \<lparr>Triggers = [cron_trigger ''@hourly'', demo_trigger]\<rparr>"
proof -
  let ?ts = "demo_service\<lparr>ts_Spec := demo_spec\<rparr>"
  let ?cm = "\<lparr>cm_Namespace = ''ns'', cm_Name = ''t'', cm_Data = Some [(''t.json'', render (spec_json demo_spec))],
    cm_Owners = owner_of ?ts\<rparr>"
  have stored: "config_maps_stored demo_kube"
    using demo_server_stores by (simp add: config_maps_stored_def demo_kube_def)
  have r: "Reconcile demo_kube (\<lambda>t. Inl NotFound) (\<lambda>t n p. Inl NotFound) (''ns'', ''t'') Map.empty =
      (None, [(''ns'', ''t'') \<mapsto> ?cm])"
    by (simp add: Reconcile_def demo_kube_def demo_server_def demo_service_def handleTriggerConfig_def api_write_def
        and_then_def Let_def)
  have get: "k_getCM demo_kube (''ns'', ''t'') Map.empty = Inl NotFound" "k_getTS demo_kube (''ns'', ''t'') Map.empty = Inr ?ts"
    "k_getCM demo_kube (''ns'', ''t'') [(''ns'', ''t'') \<mapsto> ?cm] = Inr ?cm"
    by (simp_all add: demo_kube_def demo_server_def)
  have ok: "json_ok (spec_json demo_spec)" "depth (spec_json demo_spec) \<le> maxNestingDepth" by code_simp+
  have nn: "\<forall>trs. sp_Triggers (ts_Spec ?ts) = Some trs \<longrightarrow> (\<forall>t \<in> set trs. no_null t)"
    by (simp add: demo_spec_def no_null_def cron_trigger_def demo_trigger_def)
  have m: "\<forall>cm d. k_getCM demo_kube (''ns'', ''t'') [(''ns'', ''t'') \<mapsto> ?cm] = Inr cm \<longrightarrow> cm_Data cm = Some d \<longrightarrow>
      mounted demo_formats demo_mount ''/etc/config/'' d"
    unfolding get(3) by (auto intro!: demo_mounted)
  have "sp_Triggers (ts_Spec ?ts) = Some [cron_trigger ''@hourly'', demo_trigger]" by (simp add: demo_spec_def)
  then show ?thesis
    using spec_reaches_worker [OF stored get(2) _ _ _ r _ m _ _ nn] get(1) ok r by (simp add: demo_service_def)
qed

end
